theory Spec2Isabelle
  imports Main "HOL-Library.Word"
begin

section \<open>Strings and numbers of the host language\<close>

text \<open>
  File names, sheet names and cell values are modelled as Isabelle strings. The patterns of
  the importer only inspect ASCII characters, so a name with characters outside ASCII can
  be read as its byte encoding without changing any match. A JavaScript number that comes
  out of \<open>parseInt\<close> is either \<open>NaN\<close> or a natural number; every comparison with
  \<open>NaN\<close> is false.
\<close>

datatype number = NaN | Num nat

definition num_ge :: "number \<Rightarrow> nat \<Rightarrow> bool" where
  "num_ge x n = (case x of NaN \<Rightarrow> False | Num v \<Rightarrow> n \<le> v)"

definition num_le :: "number \<Rightarrow> nat \<Rightarrow> bool" where
  "num_le x n = (case x of NaN \<Rightarrow> False | Num v \<Rightarrow> v \<le> n)"

definition is_digit :: "char \<Rightarrow> bool" where
  "is_digit c = (48 \<le> (of_char c :: nat) \<and> (of_char c :: nat) \<le> 57)"

definition digit_value :: "char \<Rightarrow> nat" where
  "digit_value c = of_char c - 48"

text \<open>
  \<open>parseInt(s, 10)\<close> on the strings the importer passes to it: the longest prefix of
  decimal digits, read in base ten, and \<open>NaN\<close> when that prefix is empty. (The source
  only calls it on pieces of a \<open>\d{6}\<close> capture, so the white space and sign that
  \<open>parseInt\<close> would also accept never occur.)
\<close>

definition parseInt10 :: "string \<Rightarrow> number" where
  "parseInt10 s =
     (case takeWhile is_digit s of
        [] \<Rightarrow> NaN
      | d # ds \<Rightarrow> Num (foldl (\<lambda>a c. 10 * a + digit_value c) 0 (d # ds)))"

text \<open>\<open>s.substring(i, j)\<close> for \<open>i \<le> j\<close>, and \<open>s.substring(i)\<close>.\<close>

definition substring :: "string \<Rightarrow> nat \<Rightarrow> nat \<Rightarrow> string" where
  "substring s i j = take (j - i) (drop i s)"

definition substring_from :: "string \<Rightarrow> nat \<Rightarrow> string" where
  "substring_from s i = drop i s"

fun nat_toString :: "nat \<Rightarrow> string" where
  "nat_toString n =
     (if n < 10 then [''0123456789'' ! n]
      else nat_toString (n div 10) @ [''0123456789'' ! (n mod 10)])"

declare nat_toString.simps [simp del]

definition toString :: "number \<Rightarrow> string" where
  "toString x = (case x of NaN \<Rightarrow> ''NaN'' | Num n \<Rightarrow> nat_toString n)"

section \<open>Sheet routing: extractMonthFromFileName\<close>

text \<open>
  \<open>fileName.replace(/\.csv$/i, '')\<close>: a final \<open>.csv\<close>, in any mix of upper and lower
  case, is removed once; any other name is left as it is.
\<close>

definition strip_csv_ext :: "string \<Rightarrow> string" where
  "strip_csv_ext s =
     (let n = length s in
      if 4 \<le> n \<and> s ! (n - 4) = CHR ''.''
           \<and> (s ! (n - 3) = CHR ''c'' \<or> s ! (n - 3) = CHR ''C'')
           \<and> (s ! (n - 2) = CHR ''s'' \<or> s ! (n - 2) = CHR ''S'')
           \<and> (s ! (n - 1) = CHR ''v'' \<or> s ! (n - 1) = CHR ''V'')
      then take (n - 4) s else s)"

text \<open>
  \<open>nameWithoutExt.match(/^enavi(\d{6})\(/)\<close>: the capture group when the name starts with
  \<open>enavi\<close>, six decimal digits and an opening parenthesis, and no match otherwise.
\<close>

definition match_enavi :: "string \<Rightarrow> string option" where
  "match_enavi s =
     (if 12 \<le> length s \<and> take 5 s = ''enavi''
           \<and> list_all is_digit (take 6 (drop 5 s)) \<and> s ! 11 = CHR ''(''
      then Some (take 6 (drop 5 s)) else None)"

definition extractMonthFromFileName :: "string \<Rightarrow> string option" where
  "extractMonthFromFileName fileName =
     (let nameWithoutExt = strip_csv_ext fileName in
      case match_enavi nameWithoutExt of
        None \<Rightarrow> None
      | Some digits \<Rightarrow>
          (let first4Digits = parseInt10 (substring digits 0 4) in
           if num_ge first4Digits 2000 then
             (let month = substring_from digits 4;
                  monthNum = parseInt10 month
              in if num_ge monthNum 1 \<and> num_le monthNum 12
                 then Some (toString monthNum) else None)
           else
             (let month = substring digits 2 4;
                  monthNum = parseInt10 month
              in if num_ge monthNum 1 \<and> num_le monthNum 12
                 then Some (toString monthNum) else None)))"

text \<open>
  The reading of the six digits that the routing rule describes, written independently of
  the code: the value of a digit string by position, the month field chosen by the size of
  the first four digits.
\<close>

fun decimal_value :: "string \<Rightarrow> nat" where
  "decimal_value [] = 0"
| "decimal_value (c # cs) = digit_value c * 10 ^ length cs + decimal_value cs"

definition month_of_digits :: "string \<Rightarrow> nat" where
  "month_of_digits ds =
     (if 2000 \<le> decimal_value (take 4 ds) then decimal_value (drop 4 ds)
      else decimal_value (take 2 (drop 2 ds)))"

text \<open>The twelve strings a routing key can be: the numbers 1 to 12 as \<open>toString\<close> prints them.\<close>

definition month_names :: "string list" where
  "month_names = map (\<lambda>n. toString (Num n)) [1..<13]"

section \<open>Decoding: readCsvFile\<close>

text \<open>
  The decoders, the CSV parser and the workbook are not part of the repository: the
  importer reaches them through \<open>TextDecoder\<close>, \<open>encoding-japanese\<close>, \<open>papaparse\<close>
  and \<open>Excel.run\<close>. They are parameters of the model, collected in one record. The type
  \<open>'t\<close> of decoded text is left open: the importer only hands the text from a decoder to
  the parser. A call that can throw returns the thrown message on the left.
\<close>

type_synonym byte = "8 word"

datatype encoding = UTF_8 | SJIS | UTF_8_forced

text \<open>
  What a \<open>catch\<close> receives: the message of an error thrown by a library, or the error of
  the single-file importer whose message says that the character encoding could not be
  determined and quotes the decoder's error.
\<close>

datatype thrown = Thrown string | EncodingDetectionFailed string

record 't decoded =
  decoded_text :: 't
  decoded_encoding :: encoding

record parse_result =
  data :: "string list list"
  errors :: "string list"

text \<open>
  The requests the importer sends to the workbook: clearing contents and fill of
  \<open>A4:L200\<close> on a sheet, and one batched write of the file-name row at a row number
  together with the data rows directly below it.
\<close>

datatype grid_op =
  ClearRange string
| WriteRows string int "string list" "string list list"

record 't platform =
  utf8_decode :: "byte list \<Rightarrow> 't"
  utf8_decode_fatal :: "byte list \<Rightarrow> 't option"
  sjis_Convert :: "byte list \<Rightarrow> string + ('t + nat list)"
  codeToString :: "nat list \<Rightarrow> 't"
  papa_parse :: "'t \<Rightarrow> string + parse_result"
  sheet_exists :: "string \<Rightarrow> bool"
  excel_run_error :: "grid_op \<Rightarrow> string option"

definition has_utf8_bom :: "byte list \<Rightarrow> bool" where
  "has_utf8_bom uint8Array =
     (3 \<le> length uint8Array \<and> uint8Array ! 0 = 0xEF \<and> uint8Array ! 1 = 0xBB
      \<and> uint8Array ! 2 = 0xBF)"

text \<open>\<open>typeof result === 'string' ? result : Encoding.codeToString(result)\<close>\<close>

definition sjis_text :: "'t platform \<Rightarrow> 't + nat list \<Rightarrow> 't" where
  "sjis_text p result = (case result of Inl s \<Rightarrow> s | Inr codes \<Rightarrow> codeToString p codes)"

text \<open>
  \<open>readCsvFile\<close> of the multi-file importer. With a byte-order mark the rest goes to the
  decoder created without \<open>fatal\<close>; otherwise the fatal decoder is tried and its failure
  leads to the Shift-JIS conversion, which is not guarded by a \<open>try\<close> of its own.
\<close>

definition readCsvFile :: "'t platform \<Rightarrow> byte list \<Rightarrow> thrown + 't decoded" where
  "readCsvFile p uint8Array =
     (if has_utf8_bom uint8Array
      then Inr \<lparr>decoded_text = utf8_decode p (drop 3 uint8Array), decoded_encoding = UTF_8\<rparr>
      else (case utf8_decode_fatal p uint8Array of
              Some t \<Rightarrow> Inr \<lparr>decoded_text = t, decoded_encoding = UTF_8\<rparr>
            | None \<Rightarrow>
                (case sjis_Convert p uint8Array of
                   Inl msg \<Rightarrow> Inl (Thrown msg)
                 | Inr result \<Rightarrow>
                     Inr \<lparr>decoded_text = sjis_text p result, decoded_encoding = SJIS\<rparr>)))"

text \<open>
  The same decision as it is written inline in the single-file importer (the variant of
  \<open>importCsvQuick\<close> that writes at \<open>A1\<close>): there the Shift-JIS conversion sits in a
  \<open>try\<close>, and its failure is thrown again as an encoding-detection failure.
\<close>

definition importCsvQuick_A1_decode :: "'t platform \<Rightarrow> byte list \<Rightarrow> thrown + 't decoded" where
  "importCsvQuick_A1_decode p uint8Array =
     (if has_utf8_bom uint8Array
      then Inr \<lparr>decoded_text = utf8_decode p (drop 3 uint8Array), decoded_encoding = UTF_8\<rparr>
      else (case utf8_decode_fatal p uint8Array of
              Some t \<Rightarrow> Inr \<lparr>decoded_text = t, decoded_encoding = UTF_8\<rparr>
            | None \<Rightarrow>
                (case sjis_Convert p uint8Array of
                   Inl msg \<Rightarrow> Inl (EncodingDetectionFailed msg)
                 | Inr result \<Rightarrow>
                     Inr \<lparr>decoded_text = sjis_text p result, decoded_encoding = SJIS\<rparr>)))"

text \<open>
  And in the ribbon command \<open>importCsvFromRibbon\<close>: a failing Shift-JIS conversion is
  answered by decoding the bytes with the non-fatal UTF-8 decoder.
\<close>

definition importCsvFromRibbon_decode :: "'t platform \<Rightarrow> byte list \<Rightarrow> thrown + 't decoded" where
  "importCsvFromRibbon_decode p uint8Array =
     (if has_utf8_bom uint8Array
      then Inr \<lparr>decoded_text = utf8_decode p (drop 3 uint8Array), decoded_encoding = UTF_8\<rparr>
      else (case utf8_decode_fatal p uint8Array of
              Some t \<Rightarrow> Inr \<lparr>decoded_text = t, decoded_encoding = UTF_8\<rparr>
            | None \<Rightarrow>
                (case sjis_Convert p uint8Array of
                   Inl msg \<Rightarrow>
                     Inr \<lparr>decoded_text = utf8_decode p uint8Array, decoded_encoding = UTF_8_forced\<rparr>
                 | Inr result \<Rightarrow>
                     Inr \<lparr>decoded_text = sjis_text p result, decoded_encoding = SJIS\<rparr>)))"

section \<open>The import batch: importCsvQuick\<close>

text \<open>
  Each warning of the source is a template string that starts with the file's name; the
  constructors keep the file name and the variable parts, in the order of the source:
  no month in the name, no sheet of that name, no rows at all, no data rows, rows cut at
  row 200, and an error caught at the end of the loop body.
\<close>

datatype warning =
  MonthNotExtracted string
| SheetMissing string string
| CsvEmpty string
| NoDataRows string
| RowsTruncated string
| Caught string thrown

fun warning_file :: "warning \<Rightarrow> string" where
  "warning_file (MonthNotExtracted f) = f"
| "warning_file (SheetMissing f m) = f"
| "warning_file (CsvEmpty f) = f"
| "warning_file (NoDataRows f) = f"
| "warning_file (RowsTruncated f) = f"
| "warning_file (Caught f e) = f"

record csv_file =
  name :: string
  bytes :: "byte list"

text \<open>
  The state of one call: the two tables \<open>sheetRowPtr\<close> and \<open>sheetCleared\<close>, the list
  \<open>warnings\<close>, and the requests the workbook has carried out so far.
\<close>

record batch_state =
  sheetRowPtr :: "string \<rightharpoonup> int"
  sheetCleared :: "string \<rightharpoonup> bool"
  warnings :: "warning list"
  grid :: "grid_op list"

abbreviation (input) MAX_COLS :: nat where "MAX_COLS \<equiv> 12"
abbreviation (input) MAX_ROW :: int where "MAX_ROW \<equiv> 200"

definition warn :: "warning \<Rightarrow> batch_state \<Rightarrow> batch_state" where
  "warn w st = st\<lparr>warnings := warnings st @ [w]\<rparr>"

text \<open>
  \<open>if (!sheetCleared[month]) { clear A4:L200; sheetCleared[month] = true;
  sheetRowPtr[month] = 4 }\<close>. A rejected request throws before either table is touched.
\<close>

definition clear_once :: "'t platform \<Rightarrow> string \<Rightarrow> batch_state \<Rightarrow> thrown + batch_state" where
  "clear_once p month st =
     (if sheetCleared st month = Some True then Inr st
      else (case excel_run_error p (ClearRange month) of
              Some msg \<Rightarrow> Inl (Thrown msg)
            | None \<Rightarrow>
                Inr (st\<lparr>sheetRowPtr := (sheetRowPtr st)(month \<mapsto> 4),
                        sheetCleared := (sheetCleared st)(month \<mapsto> True),
                        grid := grid st @ [ClearRange month]\<rparr>)))"

text \<open>\<open>sheetRowPtr[month] || 4\<close>\<close>

definition rowPtr_of :: "batch_state \<Rightarrow> string \<Rightarrow> int" where
  "rowPtr_of st month =
     (case sheetRowPtr st month of None \<Rightarrow> 4 | Some r \<Rightarrow> if r = 0 then 4 else r)"

text \<open>
  One data row cut or padded with empty strings to the twelve columns A to L. A cell is a
  string, so \<open>row[i] || ''\<close> is the cell itself.
\<close>

definition normalizeRow :: "string list \<Rightarrow> string list" where
  "normalizeRow row = map (\<lambda>i. if i < length row then row ! i else []) [0..<MAX_COLS]"

definition fileNameRow :: "string \<Rightarrow> string list" where
  "fileNameRow fileName = fileName # replicate (MAX_COLS - 1) []"

text \<open>\<open>xs.slice(0, e)\<close>: a negative end counts from the end of the array.\<close>

definition slice0 :: "'a list \<Rightarrow> int \<Rightarrow> 'a list" where
  "slice0 xs e = take (nat (if e < 0 then int (length xs) + e else e)) xs"

text \<open>The local variables of the capacity check (lines 252 to 267 of the importer).\<close>

record placement =
  fileNameRowNum :: int
  dataStartRow :: int
  dataEndRow :: int
  actualDataRows :: "string list list"
  truncated :: bool

definition place :: "int \<Rightarrow> string list list \<Rightarrow> placement" where
  "place rowPtr dataRowsNormalized =
     (let dataStartRow = rowPtr + 1;
          dataEndRow = dataStartRow + int (length dataRowsNormalized) - 1
      in if dataEndRow > MAX_ROW
         then \<lparr>fileNameRowNum = rowPtr, dataStartRow = dataStartRow, dataEndRow = dataEndRow,
               actualDataRows = slice0 dataRowsNormalized (MAX_ROW - dataStartRow + 1),
               truncated = True\<rparr>
         else \<lparr>fileNameRowNum = rowPtr, dataStartRow = dataStartRow, dataEndRow = dataEndRow,
               actualDataRows = dataRowsNormalized, truncated = False\<rparr>)"

text \<open>The row pointer stored after a write that succeeded (line 291).\<close>

definition next_rowPtr :: "placement \<Rightarrow> int" where
  "next_rowPtr pl =
     (if truncated pl then MAX_ROW
      else dataStartRow pl + int (length (actualDataRows pl)) - 1)"

text \<open>
  Lines 235 to 294: normalise, place, record the truncation warning, send the write, and
  store the new row pointer. A rejected write is caught by the loop body's \<open>catch\<close>, after
  the truncation warning and before the row pointer is stored.
\<close>

definition write_file :: "'t platform \<Rightarrow> string \<Rightarrow> string \<Rightarrow> string list list
    \<Rightarrow> batch_state \<Rightarrow> batch_state" where
  "write_file p fileName month dataRows st =
     (let dataRowsNormalized = map normalizeRow dataRows;
          pl = place (rowPtr_of st month) dataRowsNormalized;
          st1 = (if truncated pl then warn (RowsTruncated fileName) st else st);
          req = WriteRows month (fileNameRowNum pl) (fileNameRow fileName) (actualDataRows pl)
      in case excel_run_error p req of
           Some msg \<Rightarrow> warn (Caught fileName (Thrown msg)) st1
         | None \<Rightarrow>
             st1\<lparr>sheetRowPtr := (sheetRowPtr st1)(month \<mapsto> next_rowPtr pl),
                 grid := grid st1 @ [req]\<rparr>)"

text \<open>One pass of the loop body over a file, with its \<open>try\<close> and \<open>catch\<close>.\<close>

definition process_file :: "'t platform \<Rightarrow> csv_file \<Rightarrow> batch_state \<Rightarrow> batch_state" where
  "process_file p file st =
     (case extractMonthFromFileName (name file) of
        None \<Rightarrow> warn (MonthNotExtracted (name file)) st
      | Some month \<Rightarrow>
          if month = [] then warn (MonthNotExtracted (name file)) st
          else if \<not> sheet_exists p month then warn (SheetMissing (name file) month) st
          else (case clear_once p month st of
                  Inl e \<Rightarrow> warn (Caught (name file) e) st
                | Inr st1 \<Rightarrow>
                    (case readCsvFile p (bytes file) of
                       Inl e \<Rightarrow> warn (Caught (name file) e) st1
                     | Inr doc \<Rightarrow>
                         (case papa_parse p (decoded_text doc) of
                            Inl msg \<Rightarrow> warn (Caught (name file) (Thrown msg)) st1
                          | Inr parseResult \<Rightarrow>
                              (let rows = data parseResult in
                               if length rows = 0 then warn (CsvEmpty (name file)) st1
                               else
                                 (let dataRows = (if 2 \<le> length rows then drop 1 rows else [])
                                  in if length dataRows = 0
                                     then warn (NoDataRows (name file)) st1
                                     else write_file p (name file) month dataRows st1))))))"

definition initial_state :: batch_state where
  "initial_state = \<lparr>sheetRowPtr = Map.empty, sheetCleared = Map.empty, warnings = [], grid = []\<rparr>"

definition run_files :: "'t platform \<Rightarrow> csv_file list \<Rightarrow> batch_state \<Rightarrow> batch_state" where
  "run_files p files st = foldl (\<lambda>s file. process_file p file s) st files"

text \<open>
  The call from the file loop on (the file dialog before it is not modelled; it hands over
  a non-empty list of files). The error thrown for a non-empty warning list carries the
  warnings joined by line breaks, in the order of the list, under one heading; the outer
  \<open>catch\<close> throws it again with a prefix. The model keeps the list itself.
\<close>

datatype import_error = ImportFailed "warning list"

definition importCsvQuick :: "'t platform \<Rightarrow> csv_file list \<Rightarrow> grid_op list \<times> (import_error + unit)" where
  "importCsvQuick p files =
     (let st = run_files p files initial_state
      in (grid st, if length (warnings st) > 0 then Inl (ImportFailed (warnings st)) else Inr ()))"

section \<open>Notions used to state the properties\<close>

text \<open>The table a file contributes: decoded and parsed, or the error thrown on the way.\<close>

definition parsed_rows :: "'t platform \<Rightarrow> csv_file \<Rightarrow> thrown + string list list" where
  "parsed_rows p file =
     (case readCsvFile p (bytes file) of
        Inl e \<Rightarrow> Inl e
      | Inr doc \<Rightarrow>
          (case papa_parse p (decoded_text doc) of
             Inl msg \<Rightarrow> Inl (Thrown msg)
           | Inr parseResult \<Rightarrow> Inr (data parseResult)))"

text \<open>
  The last row a write touches: \<open>dataEndRowNum\<close> of lines 281 and 282 when there are data
  rows, the file-name row otherwise.
\<close>

definition written_endRow :: "placement \<Rightarrow> int" where
  "written_endRow pl =
     (if length (actualDataRows pl) > 0
      then (fileNameRowNum pl + 1) + int (length (actualDataRows pl)) - 1
      else fileNameRowNum pl)"

fun op_endRow :: "grid_op \<Rightarrow> int" where
  "op_endRow (WriteRows sheet r marker rows) = r + int (length rows)"
| "op_endRow (ClearRange sheet) = 0"

fun writes_to :: "string \<Rightarrow> grid_op \<Rightarrow> bool" where
  "writes_to k (WriteRows sheet r marker rows) = (sheet = k)"
| "writes_to k (ClearRange sheet) = False"

text \<open>The most recent write on a sheet among the requests carried out, if any.\<close>

definition last_write :: "string \<Rightarrow> grid_op list \<Rightarrow> grid_op option" where
  "last_write k ops =
     (let ws = filter (writes_to k) ops in if ws = [] then None else Some (last ws))"

fun op_sheet :: "grid_op \<Rightarrow> string" where
  "op_sheet (WriteRows sheet r marker rows) = sheet"
| "op_sheet (ClearRange sheet) = sheet"

fun op_in_range :: "grid_op \<Rightarrow> bool" where
  "op_in_range (WriteRows sheet r marker rows) = (4 \<le> r \<and> r + int (length rows) \<le> MAX_ROW)"
| "op_in_range (ClearRange sheet) = True"

text \<open>
  What holds of the two tables and the workbook requests at every point of a batch: a
  sheet has a row pointer exactly when it has been cleared; nothing was written on a
  sheet without row pointer; a row pointer lies between 4 and 200 and is 4 before the first
  write on its sheet and the end row of the latest write after it; every write lies
  within rows 4 to 200.
\<close>

definition batch_inv :: "batch_state \<Rightarrow> bool" where
  "batch_inv st =
     ((\<forall>k. (sheetCleared st k = Some True) = (sheetRowPtr st k \<noteq> None))
      \<and> (\<forall>k. sheetRowPtr st k = None \<longrightarrow> last_write k (grid st) = None)
      \<and> (\<forall>k r. sheetRowPtr st k = Some r \<longrightarrow>
             4 \<le> r \<and> r \<le> MAX_ROW
             \<and> (case last_write k (grid st) of None \<Rightarrow> r = 4 | Some w \<Rightarrow> op_endRow w = r))
      \<and> (\<forall>req \<in> set (grid st). op_in_range req))"

text \<open>The part of the state that decides what is written: everything but the warnings.\<close>

definition tables :: "batch_state \<Rightarrow> (string \<rightharpoonup> int) \<times> (string \<rightharpoonup> bool) \<times> grid_op list" where
  "tables st = (sheetRowPtr st, sheetCleared st, grid st)"

text \<open>
  The failures of a file that end its pass before anything is written: no month in the
  name, no sheet for the month, an error thrown while decoding or parsing, or a table
  without data rows.
\<close>

definition skipped :: "'t platform \<Rightarrow> csv_file \<Rightarrow> bool" where
  "skipped p f =
     (case extractMonthFromFileName (name f) of
        None \<Rightarrow> True
      | Some month \<Rightarrow>
          \<not> sheet_exists p month
          \<or> (case parsed_rows p f of Inl e \<Rightarrow> True | Inr rows \<Rightarrow> length rows \<le> 1))"

text \<open>The warnings each file's pass adds, file by file.\<close>

fun file_warnings :: "'t platform \<Rightarrow> csv_file list \<Rightarrow> batch_state \<Rightarrow> warning list list" where
  "file_warnings p [] st = []"
| "file_warnings p (file # files) st =
     drop (length (warnings st)) (warnings (process_file p file st))
       # file_warnings p files (process_file p file st)"

text \<open>
  What one pass, and so any number of passes, keeps or may only increase: the invariant,
  the row pointer of every sheet (as read by the loop and as stored), the cleared flags,
  and the requests already carried out.
\<close>

definition step_ok :: "batch_state \<Rightarrow> batch_state \<Rightarrow> bool" where
  "step_ok st st' =
     (batch_inv st'
      \<and> (\<forall>k. rowPtr_of st k \<le> rowPtr_of st' k)
      \<and> (\<forall>k r. sheetRowPtr st k = Some r \<longrightarrow> (\<exists>r'. sheetRowPtr st' k = Some r' \<and> r \<le> r'))
      \<and> (\<forall>k. sheetCleared st k = Some True \<longrightarrow> sheetCleared st' k = Some True)
      \<and> (\<exists>ops. grid st' = grid st @ ops))"

section \<open>A concrete platform for examples\<close>

text \<open>
  The UTF-8 decoder of the Encoding Standard, which \<open>TextDecoder\<close> implements: the code
  point under construction, the number of continuation bytes still needed and the bounds
  for the next byte. An error ends the decoding when \<open>fatal\<close> is set and yields U+FFFD
  otherwise; a byte that is not a valid continuation is read again as a first byte.
  \<open>decode\<close> skips a byte-order mark at the start of its input.
\<close>

function utf8_decoder :: "bool \<Rightarrow> nat \<Rightarrow> nat \<Rightarrow> nat \<Rightarrow> nat \<Rightarrow> byte list \<Rightarrow> nat list option" where
  "utf8_decoder fatal cp needed lower upper [] =
     (if needed = 0 then Some [] else if fatal then None else Some [0xFFFD])"
| "utf8_decoder fatal cp needed lower upper (b # bs) =
     (if needed = 0 then
        (if unat b \<le> 0x7F then map_option ((#) (unat b)) (utf8_decoder fatal 0 0 0x80 0xBF bs)
         else if 0xC2 \<le> unat b \<and> unat b \<le> 0xDF then
           utf8_decoder fatal (unat b mod 32) 1 0x80 0xBF bs
         else if 0xE0 \<le> unat b \<and> unat b \<le> 0xEF then
           utf8_decoder fatal (unat b mod 16) 2
             (if unat b = 0xE0 then 0xA0 else 0x80) (if unat b = 0xED then 0x9F else 0xBF) bs
         else if 0xF0 \<le> unat b \<and> unat b \<le> 0xF4 then
           utf8_decoder fatal (unat b mod 8) 3
             (if unat b = 0xF0 then 0x90 else 0x80) (if unat b = 0xF4 then 0x8F else 0xBF) bs
         else if fatal then None
         else map_option ((#) 0xFFFD) (utf8_decoder fatal 0 0 0x80 0xBF bs))
      else if unat b < lower \<or> upper < unat b then
        (if fatal then None
         else map_option ((#) 0xFFFD) (utf8_decoder fatal 0 0 0x80 0xBF (b # bs)))
      else if needed = 1 then
        map_option ((#) (cp * 64 + unat b mod 64)) (utf8_decoder fatal 0 0 0x80 0xBF bs)
      else utf8_decoder fatal (cp * 64 + unat b mod 64) (needed - 1) 0x80 0xBF bs)"
  by pat_completeness auto
termination
  by (relation "measure (\<lambda>(fatal, cp, needed, lower, upper, bs).
        2 * length bs + (if needed = 0 then 0 else 1))") auto

definition TextDecoder_decode :: "bool \<Rightarrow> byte list \<Rightarrow> nat list option" where
  "TextDecoder_decode fatal input =
     utf8_decoder fatal 0 0 0x80 0xBF (if has_utf8_bom input then drop 3 input else input)"

text \<open>
  A stand-in for the CSV parser, used for the examples only: lines end with a line
  feed, cells are separated by commas, empty lines are skipped, and no error is reported.
\<close>

fun split_on :: "nat \<Rightarrow> nat list \<Rightarrow> nat list list" where
  "split_on sep [] = [[]]"
| "split_on sep (x # xs) =
     (if x = sep then [] # split_on sep xs
      else (case split_on sep xs of [] \<Rightarrow> [[x]] | y # ys \<Rightarrow> (x # y) # ys))"

definition plain_csv :: "nat list \<Rightarrow> parse_result" where
  "plain_csv t =
     \<lparr>data = map (\<lambda>line. map (map char_of) (split_on 44 line))
               (filter (\<lambda>line. line \<noteq> []) (split_on 10 t)),
      errors = []\<rparr>"

text \<open>
  A browser in which the Shift-JIS module cannot be loaded, with a workbook that has the
  sheets \<open>6\<close> and \<open>7\<close> and accepts every request.
\<close>

definition demo_platform :: "(nat list) platform" where
  "demo_platform =
     \<lparr>utf8_decode = (\<lambda>bs. case TextDecoder_decode False bs of Some t \<Rightarrow> t | None \<Rightarrow> []),
      utf8_decode_fatal = TextDecoder_decode True,
      sjis_Convert = (\<lambda>bs. Inl ''Failed to fetch dynamically imported module''),
      codeToString = (\<lambda>codes. codes),
      papa_parse = (\<lambda>t. Inr (plain_csv t)),
      sheet_exists = (\<lambda>k. k = ''6'' \<or> k = ''7''),
      excel_run_error = (\<lambda>req. None)\<rparr>"

text \<open>
  The same platform with a parser that returns the same rows and, like the parser of the
  importer when it cannot detect the delimiter, reports an error for a text without a
  comma.
\<close>

definition reporting_platform :: "(nat list) platform" where
  "reporting_platform =
     demo_platform
       \<lparr>papa_parse := (\<lambda>t. Inr ((plain_csv t)
          \<lparr>errors := (if 44 \<in> set t then [] else [''UndetectableDelimiter''])\<rparr>))\<rparr>"

text \<open>
  Example inputs: a June file with a header and five data rows and its table, a file whose
  name has no month, a July file with one data row, a June file with its header only,
  and a June file of two bytes that are not UTF-8.
\<close>

definition june_file :: csv_file where
  "june_file =
     \<lparr>name = ''enavi202506(3034).csv'',
      bytes = [0x68, 0x2C, 0x6B, 0x0A, 0x31, 0x2C, 0x61, 0x0A, 0x32, 0x0A, 0x33, 0x0A,
               0x34, 0x0A, 0x35, 0x0A]\<rparr>"

definition june_rows :: "string list list" where
  "june_rows = [[''h'', ''k''], [''1'', ''a''], [''2''], [''3''], [''4''], [''5'']]"

definition bogus_file :: csv_file where
  "bogus_file = \<lparr>name = ''bogus.csv'', bytes = [0x68, 0x0A, 0x31, 0x0A]\<rparr>"

definition july_file :: csv_file where
  "july_file = \<lparr>name = ''enavi202507(3034).csv'', bytes = [0x68, 0x0A, 0x37, 0x0A]\<rparr>"

definition header_only_file :: csv_file where
  "header_only_file = \<lparr>name = ''enavi202506(3034).csv'', bytes = [0x68, 0x2C, 0x6B, 0x0A]\<rparr>"

definition undecodable_file :: csv_file where
  "undecodable_file = \<lparr>name = ''enavi202506(3034).csv'', bytes = [0x82, 0xFF]\<rparr>"

text \<open>
  Example states: sheet \<open>6\<close> cleared and written down to row 198 by one earlier file;
  and the state after the June file has then been processed, its five data rows cut to
  the two that fit in rows 199 and 200.
\<close>

definition state_at_198 :: batch_state where
  "state_at_198 =
     \<lparr>sheetRowPtr = [''6'' \<mapsto> 198], sheetCleared = [''6'' \<mapsto> True], warnings = [],
      grid = [ClearRange ''6'',
              WriteRows ''6'' 4 (fileNameRow ''enavi202506(1).csv'') (replicate 194 (normalizeRow []))]\<rparr>"


section \<open>Routing\<close>

text \<open>The matcher of the code is the pattern of the routing rule, and \<open>parseInt\<close> on a digit string is its value by position.\<close>

lemma foldl_decimal:
  "foldl (\<lambda>a c. 10 * a + digit_value c) a cs = a * 10 ^ length cs + decimal_value cs"
  by (induction cs arbitrary: a) (simp_all add: algebra_simps)

lemma parseInt10_digits:
  assumes "list_all is_digit s" "s \<noteq> []"
  shows "parseInt10 s = Num (decimal_value s)"
proof -
  from assms(1) have tw: "takeWhile is_digit s = s"
    by (simp add: list_all_iff)
  obtain d ds where s: "s = d # ds" using assms(2) by (cases s) auto
  have "foldl (\<lambda>a c. 10 * a + digit_value c) 0 s = decimal_value s"
    using foldl_decimal [of 0 s] by simp
  then show ?thesis
    unfolding parseInt10_def tw using s by simp
qed

lemma match_enavi_iff:
  "match_enavi s = Some ds \<longleftrightarrow>
     (\<exists>rest. s = ''enavi'' @ ds @ CHR ''('' # rest \<and> length ds = 6 \<and> list_all is_digit ds)"
proof
  assume m: "match_enavi s = Some ds"
  then have len: "12 \<le> length s" and pre: "take 5 s = ''enavi''"
    and dg: "list_all is_digit (take 6 (drop 5 s))" and par: "s ! 11 = CHR ''(''"
    and ds: "ds = take 6 (drop 5 s)"
    by (auto simp: match_enavi_def split: if_splits)
  have a: "s = take 5 s @ drop 5 s" by simp
  have b: "drop 5 s = take 6 (drop 5 s) @ drop 6 (drop 5 s)"
    by (rule append_take_drop_id [symmetric])
  have c: "drop 6 (drop 5 s) = drop 11 s" by simp
  have d: "drop 11 s = s ! 11 # drop 12 s"
    using len Cons_nth_drop_Suc [of 11 s] by simp
  have "s = ''enavi'' @ ds @ CHR ''('' # drop 12 s"
    using a b c d pre par ds by metis
  moreover have "length ds = 6" using ds len by simp
  ultimately show "\<exists>rest. s = ''enavi'' @ ds @ CHR ''('' # rest \<and> length ds = 6 \<and> list_all is_digit ds"
    using dg ds by blast
next
  assume "\<exists>rest. s = ''enavi'' @ ds @ CHR ''('' # rest \<and> length ds = 6 \<and> list_all is_digit ds"
  then obtain rest where s: "s = ''enavi'' @ ds @ CHR ''('' # rest" and l: "length ds = 6"
    and d: "list_all is_digit ds" by blast
  show "match_enavi s = Some ds"
    using l d unfolding match_enavi_def s by (simp add: nth_append)
qed

lemma match_enavi_None:
  "match_enavi s = None \<longleftrightarrow>
     \<not> (\<exists>ds rest. s = ''enavi'' @ ds @ CHR ''('' # rest \<and> length ds = 6 \<and> list_all is_digit ds)"
  using match_enavi_iff [of s] by (metis not_Some_eq)

lemma extractMonth_of_match:
  assumes "match_enavi (strip_csv_ext fileName) = Some ds"
  shows "extractMonthFromFileName fileName =
           (if 1 \<le> month_of_digits ds \<and> month_of_digits ds \<le> 12
            then Some (toString (Num (month_of_digits ds))) else None)"
proof -
  from assms obtain rest where l: "length ds = 6" and d: "list_all is_digit ds"
    using match_enavi_iff by blast
  have d4: "list_all is_digit (take 4 ds)" and d2: "list_all is_digit (drop 4 ds)"
    and d3: "list_all is_digit (take 2 (drop 2 ds))"
    using d by (auto simp: list_all_iff dest: in_set_takeD in_set_dropD)
  have ne: "ds \<noteq> []" using l by auto
  have p4: "parseInt10 (substring ds 0 4) = Num (decimal_value (take 4 ds))"
    unfolding substring_def using parseInt10_digits [OF d4] l ne by auto
  have p2: "parseInt10 (substring_from ds 4) = Num (decimal_value (drop 4 ds))"
    unfolding substring_from_def using parseInt10_digits [OF d2] l ne by auto
  have p3: "parseInt10 (substring ds 2 4) = Num (decimal_value (take 2 (drop 2 ds)))"
    unfolding substring_def using parseInt10_digits [OF d3] l ne by auto
  show ?thesis
    unfolding extractMonthFromFileName_def assms Let_def
    by (simp add: p4 p2 p3 num_ge_def num_le_def month_of_digits_def)
qed

lemma strip_csv_ext_suffix:
  assumes "e1 = CHR ''c'' \<or> e1 = CHR ''C''" "e2 = CHR ''s'' \<or> e2 = CHR ''S''"
    "e3 = CHR ''v'' \<or> e3 = CHR ''V''"
  shows "strip_csv_ext (base @ [CHR ''.'', e1, e2, e3]) = base"
  using assms by (auto simp: strip_csv_ext_def nth_append)

lemma strip_csv_ext_cases:
  "strip_csv_ext s = s
   \<or> (\<exists>e1 e2 e3. s = strip_csv_ext s @ [CHR ''.'', e1, e2, e3]
         \<and> (e1 = CHR ''c'' \<or> e1 = CHR ''C'') \<and> (e2 = CHR ''s'' \<or> e2 = CHR ''S'')
         \<and> (e3 = CHR ''v'' \<or> e3 = CHR ''V''))"
proof (cases "strip_csv_ext s = s")
  case True
  then show ?thesis by simp
next
  case False
  let ?n = "length s"
  from False have c: "4 \<le> ?n" "s ! (?n - 4) = CHR ''.''"
    "s ! (?n - 3) = CHR ''c'' \<or> s ! (?n - 3) = CHR ''C''"
    "s ! (?n - 2) = CHR ''s'' \<or> s ! (?n - 2) = CHR ''S''"
    "s ! (?n - 1) = CHR ''v'' \<or> s ! (?n - 1) = CHR ''V''"
    and st: "strip_csv_ext s = take (?n - 4) s"
    by (auto simp: strip_csv_ext_def Let_def split: if_splits)
  have d: "drop (?n - 4) s = [s ! (?n - 4), s ! (?n - 3), s ! (?n - 2), s ! (?n - 1)]"
  proof (rule nth_equalityI)
    show "length (drop (?n - 4) s) = length [s ! (?n - 4), s ! (?n - 3), s ! (?n - 2), s ! (?n - 1)]"
      using c(1) by simp
  next
    fix i assume "i < length (drop (?n - 4) s)"
    then have "i < 4" using c(1) by simp
    then have "i = 0 \<or> i = 1 \<or> i = 2 \<or> i = 3" by arith
    then show "drop (?n - 4) s ! i = [s ! (?n - 4), s ! (?n - 3), s ! (?n - 2), s ! (?n - 1)] ! i"
      using c(1) by (auto simp: nth_Cons' numeral_2_eq_2 numeral_3_eq_3 intro: arg_cong [where f = "nth s"])
  qed
  have "s = take (?n - 4) s @ drop (?n - 4) s" by simp
  then have "s = strip_csv_ext s @ [CHR ''.'', s ! (?n - 3), s ! (?n - 2), s ! (?n - 1)]"
    unfolding st d using c(2) by simp
  with c(3,4,5) show ?thesis by blast
qed

lemma toString_month: "1 \<le> m \<Longrightarrow> m \<le> 12 \<Longrightarrow> toString (Num m) \<in> set month_names"
  by (simp add: month_names_def)

lemma nat_toString_nonempty: "nat_toString n \<noteq> []"
  by (subst nat_toString.simps) simp

lemma nat_toString_small: "n < 10 \<Longrightarrow> nat_toString n = [''0123456789'' ! n]"
  by (subst nat_toString.simps) simp

lemma nat_toString_two: "10 \<le> n \<Longrightarrow> n < 100 \<Longrightarrow>
    nat_toString n = [''0123456789'' ! (n div 10), ''0123456789'' ! (n mod 10)]"
  by (subst nat_toString.simps) (simp add: nat_toString_small)

lemma extractMonth_in_names:
  assumes "extractMonthFromFileName fileName = Some k"
  shows "k \<in> set month_names"
proof (cases "match_enavi (strip_csv_ext fileName)")
  case None
  with assms show ?thesis by (simp add: extractMonthFromFileName_def)
next
  case (Some ds)
  from extractMonth_of_match [OF Some] assms
  show ?thesis by (auto split: if_splits intro: toString_month)
qed

lemma month_names_nonempty: "k \<in> set month_names \<Longrightarrow> k \<noteq> []"
  by (auto simp: month_names_def toString_def nat_toString_nonempty)

lemma month_name_cases:
  assumes "k \<in> set month_names"
  shows "\<exists>m. 1 \<le> m \<and> m \<le> 12 \<and> k = toString (Num m)"
  using assms by (auto simp: month_names_def)

lemma month_name_no_leading_zero:
  assumes "k \<in> set month_names"
  shows "hd k \<noteq> CHR ''0''"
proof -
  from month_name_cases [OF assms] obtain m where m: "1 \<le> m" "m \<le> 12" "k = toString (Num m)"
    by blast
  from m(1,2) have "m = 1 \<or> m = 2 \<or> m = 3 \<or> m = 4 \<or> m = 5 \<or> m = 6 \<or> m = 7 \<or> m = 8
      \<or> m = 9 \<or> m = 10 \<or> m = 11 \<or> m = 12" by arith
  then show ?thesis unfolding m(3)
    by (auto simp: toString_def nat_toString_small nat_toString_two)
qed

section \<open>Decoding\<close>

text \<open>Without byte-order mark and with a failing fatal decoder, the result is decided by the Shift-JIS conversion alone.\<close>

lemma readCsvFile_fallback:
  assumes "\<not> has_utf8_bom uint8Array" "utf8_decode_fatal p uint8Array = None"
  shows "readCsvFile p uint8Array =
     (case sjis_Convert p uint8Array of
        Inl msg \<Rightarrow> Inl (Thrown msg)
      | Inr result \<Rightarrow> Inr \<lparr>decoded_text = sjis_text p result, decoded_encoding = SJIS\<rparr>)"
    and "importCsvQuick_A1_decode p uint8Array =
     (case sjis_Convert p uint8Array of
        Inl msg \<Rightarrow> Inl (EncodingDetectionFailed msg)
      | Inr result \<Rightarrow> Inr \<lparr>decoded_text = sjis_text p result, decoded_encoding = SJIS\<rparr>)"
  using assms by (simp_all add: readCsvFile_def importCsvQuick_A1_decode_def)

section \<open>One pass of the loop\<close>

text \<open>The result of one pass in each of its outcomes, and what a pass adds to the warnings and to the requests.\<close>

lemma process_file_unrouted:
  "extractMonthFromFileName (name file) = None \<Longrightarrow>
   process_file p file st = warn (MonthNotExtracted (name file)) st"
  by (simp add: process_file_def)

lemma process_file_no_sheet:
  "extractMonthFromFileName (name file) = Some month \<Longrightarrow> \<not> sheet_exists p month \<Longrightarrow>
   process_file p file st = warn (SheetMissing (name file) month) st"
  using month_names_nonempty [OF extractMonth_in_names, of "name file" month]
  by (simp add: process_file_def)

lemma process_file_clear_rejected:
  "extractMonthFromFileName (name file) = Some month \<Longrightarrow> sheet_exists p month \<Longrightarrow>
   clear_once p month st = Inl e \<Longrightarrow>
   process_file p file st = warn (Caught (name file) e) st"
  using month_names_nonempty [OF extractMonth_in_names, of "name file" month]
  by (simp add: process_file_def)

lemma process_file_routed:
  assumes "extractMonthFromFileName (name file) = Some month" "sheet_exists p month"
    "clear_once p month st = Inr st1"
  shows "process_file p file st =
     (case parsed_rows p file of
        Inl e \<Rightarrow> warn (Caught (name file) e) st1
      | Inr rows \<Rightarrow>
          if length rows = 0 then warn (CsvEmpty (name file)) st1
          else if length rows < 2 then warn (NoDataRows (name file)) st1
          else write_file p (name file) month (drop 1 rows) st1)"
  using month_names_nonempty [OF extractMonth_in_names, of "name file" month] assms
  by (auto simp: process_file_def parsed_rows_def Let_def split: sum.splits)

lemma warn_fields [simp]:
  "sheetRowPtr (warn w st) = sheetRowPtr st" "sheetCleared (warn w st) = sheetCleared st"
  "grid (warn w st) = grid st" "warnings (warn w st) = warnings st @ [w]"
  by (simp_all add: warn_def)

lemma rowPtr_of_warn [simp]: "rowPtr_of (warn w st) k = rowPtr_of st k"
  by (simp add: rowPtr_of_def)

lemma clear_once_cases:
  assumes "clear_once p k st = Inr st1"
  shows "(sheetCleared st k = Some True \<and> st1 = st)
     \<or> (sheetCleared st k \<noteq> Some True \<and> excel_run_error p (ClearRange k) = None
         \<and> st1 = st\<lparr>sheetRowPtr := (sheetRowPtr st)(k \<mapsto> 4),
                     sheetCleared := (sheetCleared st)(k \<mapsto> True),
                     grid := grid st @ [ClearRange k]\<rparr>)"
  using assms by (auto simp: clear_once_def split: if_splits option.splits)

lemma clear_once_unseen:
  assumes "sheetCleared st k \<noteq> Some True" "excel_run_error p (ClearRange k) = None"
  shows "clear_once p k st = Inr (st\<lparr>sheetRowPtr := (sheetRowPtr st)(k \<mapsto> 4),
                     sheetCleared := (sheetCleared st)(k \<mapsto> True),
                     grid := grid st @ [ClearRange k]\<rparr>)"
  using assms by (simp add: clear_once_def)

lemma clear_once_seen:
  assumes "sheetCleared st k = Some True"
  shows "clear_once p k st = Inr st"
  using assms by (simp add: clear_once_def)

lemma clear_once_warnings: "clear_once p k st = Inr st1 \<Longrightarrow> warnings st1 = warnings st"
  by (auto simp: clear_once_def split: if_splits option.splits)

lemma place_fits:
  assumes "rowPtr + int (length rows) \<le> 200"
  shows "place rowPtr rows = \<lparr>fileNameRowNum = rowPtr, dataStartRow = rowPtr + 1,
      dataEndRow = rowPtr + int (length rows), actualDataRows = rows, truncated = False\<rparr>"
  using assms by (simp add: place_def Let_def)

lemma place_overflow:
  assumes "rowPtr + int (length rows) > 200" "rowPtr \<le> 200"
  shows "place rowPtr rows = \<lparr>fileNameRowNum = rowPtr, dataStartRow = rowPtr + 1,
      dataEndRow = rowPtr + int (length rows), actualDataRows = take (nat (200 - rowPtr)) rows,
      truncated = True\<rparr>"
  using assms by (simp add: place_def Let_def slice0_def)

lemma place_summary:
  assumes "4 \<le> rowPtr" "rowPtr \<le> 200"
  shows "fileNameRowNum (place rowPtr rows) = rowPtr"
    "fileNameRowNum (place rowPtr rows) + int (length (actualDataRows (place rowPtr rows)))
       = next_rowPtr (place rowPtr rows)"
    "next_rowPtr (place rowPtr rows) \<le> 200"
    "rowPtr \<le> next_rowPtr (place rowPtr rows)"
    "truncated (place rowPtr rows) = (rowPtr + int (length rows) > 200)"
proof -
  consider (fits) "rowPtr + int (length rows) \<le> 200" | (over) "rowPtr + int (length rows) > 200"
    by linarith
  then have "fileNameRowNum (place rowPtr rows) = rowPtr
    \<and> fileNameRowNum (place rowPtr rows) + int (length (actualDataRows (place rowPtr rows)))
       = next_rowPtr (place rowPtr rows)
    \<and> next_rowPtr (place rowPtr rows) \<le> 200
    \<and> rowPtr \<le> next_rowPtr (place rowPtr rows)
    \<and> truncated (place rowPtr rows) = (rowPtr + int (length rows) > 200)"
  proof cases
    case fits
    then show ?thesis by (simp add: place_fits next_rowPtr_def)
  next
    case over
    then show ?thesis using assms by (simp add: place_overflow next_rowPtr_def)
  qed
  then show "fileNameRowNum (place rowPtr rows) = rowPtr"
    "fileNameRowNum (place rowPtr rows) + int (length (actualDataRows (place rowPtr rows)))
       = next_rowPtr (place rowPtr rows)"
    "next_rowPtr (place rowPtr rows) \<le> 200"
    "rowPtr \<le> next_rowPtr (place rowPtr rows)"
    "truncated (place rowPtr rows) = (rowPtr + int (length rows) > 200)"
    by auto
qed

lemma write_file_rejected:
  assumes "excel_run_error p (WriteRows k (fileNameRowNum (place (rowPtr_of st k) (map normalizeRow dataRows)))
      (fileNameRow f) (actualDataRows (place (rowPtr_of st k) (map normalizeRow dataRows)))) = Some msg"
  shows "write_file p f k dataRows st =
     warn (Caught f (Thrown msg))
       (if truncated (place (rowPtr_of st k) (map normalizeRow dataRows))
        then warn (RowsTruncated f) st else st)"
  using assms by (simp add: write_file_def Let_def)

lemma write_file_accepted:
  assumes "excel_run_error p (WriteRows k (fileNameRowNum (place (rowPtr_of st k) (map normalizeRow dataRows)))
      (fileNameRow f) (actualDataRows (place (rowPtr_of st k) (map normalizeRow dataRows)))) = None"
  shows "write_file p f k dataRows st =
     st\<lparr>sheetRowPtr := (sheetRowPtr st)(k \<mapsto> next_rowPtr (place (rowPtr_of st k) (map normalizeRow dataRows))),
        warnings := warnings st @
          (if truncated (place (rowPtr_of st k) (map normalizeRow dataRows)) then [RowsTruncated f] else []),
        grid := grid st @ [WriteRows k (fileNameRowNum (place (rowPtr_of st k) (map normalizeRow dataRows)))
          (fileNameRow f) (actualDataRows (place (rowPtr_of st k) (map normalizeRow dataRows)))]\<rparr>"
  using assms by (simp add: write_file_def Let_def warn_def)

lemma write_file_warnings:
  "\<exists>ws. warnings (write_file p f k dataRows st) = warnings st @ ws
      \<and> (\<forall>w \<in> set ws. warning_file w = f)"
proof (cases "excel_run_error p (WriteRows k (fileNameRowNum (place (rowPtr_of st k) (map normalizeRow dataRows)))
      (fileNameRow f) (actualDataRows (place (rowPtr_of st k) (map normalizeRow dataRows))))")
  case None
  show ?thesis unfolding write_file_accepted [OF None] by simp
next
  case (Some msg)
  show ?thesis unfolding write_file_rejected [OF Some] by simp
qed

lemma write_file_grid:
  "\<exists>ops. grid (write_file p f k rows st) = grid st @ ops \<and> (\<forall>req \<in> set ops. op_sheet req = k)"
  by (auto simp: write_file_def Let_def warn_def split: option.splits)

lemma process_file_warnings:
  "\<exists>ws. warnings (process_file p file st) = warnings st @ ws
      \<and> (\<forall>w \<in> set ws. warning_file w = name file)"
proof (cases "extractMonthFromFileName (name file)")
  case None
  show ?thesis unfolding process_file_unrouted [OF None] by simp
next
  case (Some month)
  show ?thesis
  proof (cases "sheet_exists p month")
    case False
    show ?thesis unfolding process_file_no_sheet [OF Some False] by simp
  next
    case True
    show ?thesis
    proof (cases "clear_once p month st")
      case (Inl e)
      show ?thesis unfolding process_file_clear_rejected [OF Some True Inl] by simp
    next
      case (Inr st1)
      from clear_once_cases [OF Inr] have w1: "warnings st1 = warnings st" by auto
      from write_file_warnings [of p "name file" month _ st1]
      have ww: "\<exists>ws. warnings (write_file p (name file) month rows st1) = warnings st @ ws
        \<and> (\<forall>w \<in> set ws. warning_file w = name file)" for rows
        unfolding w1 .
      show ?thesis unfolding process_file_routed [OF Some True Inr]
        using w1 ww by (auto split: sum.splits)
    qed
  qed
qed

lemma process_file_grid:
  assumes "extractMonthFromFileName (name file) = Some k"
  shows "\<exists>ops. grid (process_file p file st) = grid st @ ops \<and> (\<forall>req \<in> set ops. op_sheet req = k)"
proof (cases "sheet_exists p k")
  case False
  show ?thesis unfolding process_file_no_sheet [OF assms False] by simp
next
  case True
  show ?thesis
  proof (cases "clear_once p k st")
    case (Inl e)
    show ?thesis unfolding process_file_clear_rejected [OF assms True Inl] by simp
  next
    case (Inr st1)
    from clear_once_cases [OF Inr]
    have g1: "\<exists>ops. grid st1 = grid st @ ops \<and> (\<forall>req \<in> set ops. op_sheet req = k)"
      by auto
    then obtain o1 where o1: "grid st1 = grid st @ o1" "\<forall>req \<in> set o1. op_sheet req = k"
      by blast
    have w: "\<exists>ops. grid (write_file p (name file) k rows st1) = grid st @ ops
        \<and> (\<forall>req \<in> set ops. op_sheet req = k)" for rows
    proof -
      from write_file_grid [of p "name file" k rows st1] obtain o2 where
        o2: "grid (write_file p (name file) k rows st1) = grid st1 @ o2"
          "\<forall>req \<in> set o2. op_sheet req = k" by blast
      have "grid (write_file p (name file) k rows st1) = grid st @ (o1 @ o2)"
        using o1(1) o2(1) by simp
      moreover have "\<forall>req \<in> set (o1 @ o2). op_sheet req = k" using o1(2) o2(2) by auto
      ultimately show ?thesis by blast
    qed
    show ?thesis unfolding process_file_routed [OF assms True Inr]
      using g1 w by (auto split: sum.splits)
  qed
qed

lemma process_file_few_rows:
  assumes route: "extractMonthFromFileName (name f) = Some month"
    and sheet: "sheet_exists p month"
    and cl: "clear_once p month st = Inr st1"
    and table: "parsed_rows p f = Inr rows" and few: "length rows \<le> 1"
  shows "process_file p f st =
           warn (if rows = [] then CsvEmpty (name f) else NoDataRows (name f)) st1"
  using process_file_routed [OF route sheet cl] table few by auto

lemma process_file_fits:
  assumes route: "extractMonthFromFileName (name f) = Some month"
    and sheet: "sheet_exists p month"
    and cl: "clear_once p month st = Inr st1"
    and table: "parsed_rows p f = Inr rows"
    and some_data: "2 \<le> length rows"
    and fits: "rowPtr_of st1 month + int (length rows) - 1 \<le> 200"
    and write_ok: "excel_run_error p (WriteRows month (rowPtr_of st1 month) (fileNameRow (name f))
        (map normalizeRow (drop 1 rows))) = None"
  shows "process_file p f st =
     st1\<lparr>sheetRowPtr := (sheetRowPtr st1)(month \<mapsto> rowPtr_of st1 month + int (length rows) - 1),
         grid := grid st1 @ [WriteRows month (rowPtr_of st1 month) (fileNameRow (name f))
           (map normalizeRow (drop 1 rows))]\<rparr>"
proof -
  let ?rows = "map normalizeRow (drop 1 rows)"
  have len: "int (length ?rows) = int (length rows) - 1" using some_data by simp
  have f2: "rowPtr_of st1 month + int (length ?rows) \<le> 200" using fits len by simp
  note pl = place_fits [OF f2]
  have acc: "excel_run_error p (WriteRows month (fileNameRowNum (place (rowPtr_of st1 month) ?rows))
      (fileNameRow (name f)) (actualDataRows (place (rowPtr_of st1 month) ?rows))) = None"
    unfolding pl using write_ok by simp
  have pf: "process_file p f st = write_file p (name f) month (drop 1 rows) st1"
    using process_file_routed [OF route sheet cl] table some_data by auto
  show ?thesis unfolding pf write_file_accepted [OF acc] unfolding pl
    using len by (simp add: next_rowPtr_def)
qed


lemma parser_errors_not_recorded:
  "process_file (p\<lparr>papa_parse := (\<lambda>t. map_sum id (\<lambda>r. r\<lparr>errors := es t\<rparr>) (papa_parse p t))\<rparr>) f st
     = process_file p f st"
proof -
  let ?p' = "p\<lparr>papa_parse := (\<lambda>t. map_sum id (\<lambda>r. r\<lparr>errors := es t\<rparr>) (papa_parse p t))\<rparr>"
  have r: "readCsvFile ?p' bs = readCsvFile p bs" for bs
    by (simp add: readCsvFile_def sjis_text_def split: option.splits sum.splits)
  have c: "clear_once ?p' k s = clear_once p k s" for k s
    by (simp add: clear_once_def)
  have w: "write_file ?p' n k rows s = write_file p n k rows s" for n k rows s
    by (simp add: write_file_def)
  have pr: "parsed_rows ?p' f = parsed_rows p f"
  proof (cases "readCsvFile p (bytes f)")
    case (Inl e)
    then show ?thesis by (simp add: parsed_rows_def r)
  next
    case (Inr doc)
    then show ?thesis
      by (cases "papa_parse p (decoded_text doc)") (simp_all add: parsed_rows_def r)
  qed
  show ?thesis
  proof (cases "extractMonthFromFileName (name f)")
    case None
    show ?thesis by (simp add: process_file_unrouted [OF None])
  next
    case (Some month)
    show ?thesis
    proof (cases "sheet_exists p month")
      case False
      then have "\<not> sheet_exists ?p' month" by simp
      from process_file_no_sheet [OF Some this] process_file_no_sheet [OF Some False]
      show ?thesis by simp
    next
      case True
      then have t': "sheet_exists ?p' month" by simp
      show ?thesis
      proof (cases "clear_once p month st")
        case (Inl e)
        then have "clear_once ?p' month st = Inl e" by (simp add: c)
        from process_file_clear_rejected [OF Some t' this]
          process_file_clear_rejected [OF Some True Inl]
        show ?thesis by simp
      next
        case (Inr st1)
        then have "clear_once ?p' month st = Inr st1" by (simp add: c)
        from process_file_routed [OF Some t' this] process_file_routed [OF Some True Inr]
        show ?thesis by (auto simp: pr w split: sum.splits)
      qed
    qed
  qed
qed

lemma skipped_step:
  assumes "skipped p f"
  shows "\<exists>w st1. process_file p f st = warn w st1 \<and> warning_file w = name f
      \<and> warnings st1 = warnings st
      \<and> (\<forall>req \<in> set (grid st1). req \<in> set (grid st) \<or> (\<exists>k. req = ClearRange k))"
proof (cases "extractMonthFromFileName (name f)")
  case None
  have "warning_file (MonthNotExtracted (name f)) = name f" by simp
  then show ?thesis unfolding process_file_unrouted [OF None] by blast
next
  case (Some month)
  show ?thesis
  proof (cases "sheet_exists p month")
    case False
    have "warning_file (SheetMissing (name f) month) = name f" by simp
    then show ?thesis unfolding process_file_no_sheet [OF Some False] by blast
  next
    case True
    show ?thesis
    proof (cases "clear_once p month st")
      case (Inl e)
      have "warning_file (Caught (name f) e) = name f" by simp
      then show ?thesis unfolding process_file_clear_rejected [OF Some True Inl] by blast
    next
      case (Inr st1)
      from assms Some True have t: "case parsed_rows p f of Inl e \<Rightarrow> True | Inr rows \<Rightarrow> length rows \<le> 1"
        by (simp add: skipped_def)
      have g: "\<forall>req \<in> set (grid st1). req \<in> set (grid st) \<or> (\<exists>k. req = ClearRange k)"
        using clear_once_cases [OF Inr] by auto
      have w1: "warnings st1 = warnings st" by (rule clear_once_warnings [OF Inr])
      have "\<exists>w. process_file p f st = warn w st1 \<and> warning_file w = name f"
        unfolding process_file_routed [OF Some True Inr] using t
        by (auto split: sum.splits)
      with g w1 show ?thesis by blast
    qed
  qed
qed

section \<open>The invariant of a batch\<close>

text \<open>The invariant holds of the initial state and is kept by every pass, which never lowers a row pointer and never resets a cleared flag.\<close>

lemma last_write_snoc_clear [simp]:
  "last_write k (ops @ [ClearRange s]) = last_write k ops"
  by (simp add: last_write_def)

lemma last_write_snoc_write [simp]:
  "last_write k (ops @ [WriteRows s r m ds]) =
     (if s = k then Some (WriteRows s r m ds) else last_write k ops)"
  by (simp add: last_write_def)


lemma batch_inv_warn [simp]: "batch_inv (warn w st) = batch_inv st"
  by (simp add: batch_inv_def)

lemma batch_inv_initial: "batch_inv initial_state"
  by (simp add: batch_inv_def initial_state_def last_write_def)

lemma clear_once_inv:
  assumes "batch_inv st" "clear_once p k st = Inr st1"
  shows "batch_inv st1" "sheetRowPtr st1 k \<noteq> None" "warnings st1 = warnings st"
    "rowPtr_of st1 k' = rowPtr_of st k'" "sheetCleared st1 k = Some True"
    "4 \<le> rowPtr_of st1 k" "rowPtr_of st1 k \<le> 200"
proof -
  from clear_once_cases [OF assms(2)] consider
    (old) "sheetCleared st k = Some True" "st1 = st"
  | (new) "sheetCleared st k \<noteq> Some True" 
      "st1 = st\<lparr>sheetRowPtr := (sheetRowPtr st)(k \<mapsto> 4),
                     sheetCleared := (sheetCleared st)(k \<mapsto> True),
                     grid := grid st @ [ClearRange k]\<rparr>" by blast
  then have "batch_inv st1 \<and> sheetRowPtr st1 k \<noteq> None \<and> warnings st1 = warnings st
    \<and> rowPtr_of st1 k' = rowPtr_of st k' \<and> sheetCleared st1 k = Some True"
  proof cases
    case old
    with assms(1) show ?thesis by (auto simp: batch_inv_def)
  next
    case new
    from new(1) assms(1) have none: "sheetRowPtr st k = None" "last_write k (grid st) = None"
      by (auto simp: batch_inv_def)
    have "batch_inv st1"
      using assms(1) none unfolding new(2) batch_inv_def by auto
    moreover have "rowPtr_of st1 k' = rowPtr_of st k'"
      using none unfolding new(2) rowPtr_of_def by auto
    ultimately show ?thesis using new(2) by simp
  qed
  then show "batch_inv st1" "sheetRowPtr st1 k \<noteq> None" "warnings st1 = warnings st"
    "rowPtr_of st1 k' = rowPtr_of st k'" "sheetCleared st1 k = Some True"
    by auto
  then obtain r where r: "sheetRowPtr st1 k = Some r" by auto
  with \<open>batch_inv st1\<close> have "4 \<le> r \<and> r \<le> 200" by (auto simp: batch_inv_def)
  then show "4 \<le> rowPtr_of st1 k" "rowPtr_of st1 k \<le> 200"
    using r by (auto simp: rowPtr_of_def)
qed

lemma rowPtr_of_inv:
  assumes "batch_inv st"
  shows "4 \<le> rowPtr_of st k" "rowPtr_of st k \<le> 200"
  using assms by (auto simp: batch_inv_def rowPtr_of_def split: option.splits)

lemma write_file_inv:
  assumes inv: "batch_inv st" and ptr: "sheetRowPtr st k \<noteq> None"
  shows "batch_inv (write_file p f k dataRows st)"
    "rowPtr_of st k' \<le> rowPtr_of (write_file p f k dataRows st) k'"
    "sheetCleared (write_file p f k dataRows st) = sheetCleared st"
    "sheetRowPtr st k' = Some r \<Longrightarrow>
       \<exists>r'. sheetRowPtr (write_file p f k dataRows st) k' = Some r' \<and> r \<le> r'"
    "\<exists>ops. grid (write_file p f k dataRows st) = grid st @ ops"
proof -
  let ?pl = "place (rowPtr_of st k) (map normalizeRow dataRows)"
  let ?req = "WriteRows k (fileNameRowNum ?pl) (fileNameRow f) (actualDataRows ?pl)"
  note b = rowPtr_of_inv [OF inv, of k]
  note ps = place_summary [OF b, of "map normalizeRow dataRows"]
  from ptr obtain r0 where r0: "sheetRowPtr st k = Some r0" by auto
  with inv have r0b: "4 \<le> r0" by (auto simp: batch_inv_def)
  then have rp: "rowPtr_of st k = r0" using r0 by (simp add: rowPtr_of_def)
  have all: "batch_inv (write_file p f k dataRows st)
    \<and> rowPtr_of st k' \<le> rowPtr_of (write_file p f k dataRows st) k'
    \<and> sheetCleared (write_file p f k dataRows st) = sheetCleared st
    \<and> (sheetRowPtr st k' = Some r \<longrightarrow>
       (\<exists>r'. sheetRowPtr (write_file p f k dataRows st) k' = Some r' \<and> r \<le> r'))
    \<and> (\<exists>ops. grid (write_file p f k dataRows st) = grid st @ ops)"
  proof (cases "excel_run_error p ?req")
    case (Some msg)
    show ?thesis unfolding write_file_rejected [OF Some] using inv by (simp add: rowPtr_of_def)
  next
    case None
    have i: "batch_inv (write_file p f k dataRows st)"
      unfolding write_file_accepted [OF None] using inv r0 ps b
      by (auto simp: batch_inv_def)
    have m: "rowPtr_of st k' \<le> rowPtr_of (write_file p f k dataRows st) k'"
      unfolding write_file_accepted [OF None] using ps(4) b rp r0
      by (auto simp: rowPtr_of_def)
    have m2: "sheetRowPtr st k' = Some r \<longrightarrow>
       (\<exists>r'. sheetRowPtr (write_file p f k dataRows st) k' = Some r' \<and> r \<le> r')"
      unfolding write_file_accepted [OF None] using ps(4) rp r0 by auto
    show ?thesis using i m m2 unfolding write_file_accepted [OF None] by simp
  qed
  then show "batch_inv (write_file p f k dataRows st)"
    "rowPtr_of st k' \<le> rowPtr_of (write_file p f k dataRows st) k'"
    "sheetCleared (write_file p f k dataRows st) = sheetCleared st"
    "sheetRowPtr st k' = Some r \<Longrightarrow>
       \<exists>r'. sheetRowPtr (write_file p f k dataRows st) k' = Some r' \<and> r \<le> r'"
    "\<exists>ops. grid (write_file p f k dataRows st) = grid st @ ops"
    by auto
qed

lemma clear_once_mono:
  assumes "batch_inv st" "clear_once p k st = Inr st1"
  shows "sheetCleared st k' = Some True \<Longrightarrow> sheetCleared st1 k' = Some True"
    "sheetRowPtr st k' = Some r \<Longrightarrow> sheetRowPtr st1 k' = Some r"
    "\<exists>ops. grid st1 = grid st @ ops"
proof -
  from clear_once_cases [OF assms(2)] consider
    (old) "st1 = st"
  | (new) "sheetCleared st k \<noteq> Some True"
      "st1 = st\<lparr>sheetRowPtr := (sheetRowPtr st)(k \<mapsto> 4),
                     sheetCleared := (sheetCleared st)(k \<mapsto> True),
                     grid := grid st @ [ClearRange k]\<rparr>" by blast
  then have "(sheetCleared st k' = Some True \<longrightarrow> sheetCleared st1 k' = Some True)
    \<and> (sheetRowPtr st k' = Some r \<longrightarrow> sheetRowPtr st1 k' = Some r)
    \<and> (\<exists>ops. grid st1 = grid st @ ops)"
  proof cases
    case old
    then show ?thesis by simp
  next
    case new
    from new(1) assms(1) have "sheetRowPtr st k = None" by (auto simp: batch_inv_def)
    then show ?thesis unfolding new(2) by auto
  qed
  then show "sheetCleared st k' = Some True \<Longrightarrow> sheetCleared st1 k' = Some True"
    "sheetRowPtr st k' = Some r \<Longrightarrow> sheetRowPtr st1 k' = Some r"
    "\<exists>ops. grid st1 = grid st @ ops" by auto
qed

lemma step_ok_refl: "batch_inv st \<Longrightarrow> step_ok st st"
  by (simp add: step_ok_def)

lemma step_ok_warn: "step_ok st st' \<Longrightarrow> step_ok st (warn w st')"
  by (simp add: step_ok_def)

lemma step_ok_trans:
  assumes ab: "step_ok a b" and bc: "step_ok b c"
  shows "step_ok a c"
proof -
  have i: "batch_inv c" using bc by (simp add: step_ok_def)
  have r: "rowPtr_of a k \<le> rowPtr_of c k" for k
  proof -
    have "rowPtr_of a k \<le> rowPtr_of b k" "rowPtr_of b k \<le> rowPtr_of c k"
      using ab bc by (simp_all add: step_ok_def)
    then show ?thesis by (rule order_trans)
  qed
  have s: "\<exists>r'. sheetRowPtr c k = Some r' \<and> r \<le> r'" if "sheetRowPtr a k = Some r" for k r
  proof -
    from ab that obtain r1 where r1: "sheetRowPtr b k = Some r1" "r \<le> r1"
      unfolding step_ok_def by blast
    from bc r1(1) obtain r2 where r2: "sheetRowPtr c k = Some r2" "r1 \<le> r2"
      unfolding step_ok_def by blast
    from r1(2) r2 show ?thesis by auto
  qed
  have c: "sheetCleared c k = Some True" if "sheetCleared a k = Some True" for k
    using ab bc that by (simp add: step_ok_def)
  have g: "\<exists>ops. grid c = grid a @ ops"
  proof -
    from ab obtain o1 where "grid b = grid a @ o1" unfolding step_ok_def by blast
    moreover from bc obtain o2 where "grid c = grid b @ o2" unfolding step_ok_def by blast
    ultimately have "grid c = grid a @ (o1 @ o2)" by simp
    then show ?thesis by blast
  qed
  show ?thesis unfolding step_ok_def using i r s c g by blast
qed

lemma step_ok_clear:
  assumes "batch_inv st" "clear_once p k st = Inr st1"
  shows "step_ok st st1"
  unfolding step_ok_def
  using clear_once_inv(1,4) [OF assms] clear_once_mono [OF assms]
  by auto

lemma step_ok_write:
  assumes "batch_inv st" "sheetRowPtr st k \<noteq> None"
  shows "step_ok st (write_file p f k dataRows st)"
  unfolding step_ok_def
  using write_file_inv [OF assms, where p = p and f = f and dataRows = dataRows]
  by auto

lemma process_file_step:
  assumes inv: "batch_inv st"
  shows "step_ok st (process_file p file st)"
proof (cases "extractMonthFromFileName (name file)")
  case None
  show ?thesis unfolding process_file_unrouted [OF None]
    by (rule step_ok_warn [OF step_ok_refl [OF inv]])
next
  case (Some month)
  show ?thesis
  proof (cases "sheet_exists p month")
    case False
    show ?thesis unfolding process_file_no_sheet [OF Some False]
      by (rule step_ok_warn [OF step_ok_refl [OF inv]])
  next
    case True
    show ?thesis
    proof (cases "clear_once p month st")
      case (Inl e)
      show ?thesis unfolding process_file_clear_rejected [OF Some True Inl]
        by (rule step_ok_warn [OF step_ok_refl [OF inv]])
    next
      case (Inr st1)
      note c = step_ok_clear [OF inv Inr]
      note i1 = clear_once_inv(1,2) [OF inv Inr]
      have w: "step_ok st (write_file p (name file) month rows st1)" for rows
        by (rule step_ok_trans [OF c step_ok_write [OF i1]])
      show ?thesis unfolding process_file_routed [OF Some True Inr]
        using c w by (auto split: sum.splits intro: step_ok_warn)
    qed
  qed
qed

section \<open>Batches\<close>

text \<open>Runs over lists of files: the invariant, the warnings file by file, and the independence of the requests from the warnings.\<close>

lemma run_files_Nil [simp]: "run_files p [] st = st"
  by (simp add: run_files_def)

lemma run_files_Cons [simp]: "run_files p (f # fs) st = run_files p fs (process_file p f st)"
  by (simp add: run_files_def)

lemma run_files_append: "run_files p (xs @ ys) st = run_files p ys (run_files p xs st)"
  by (simp add: run_files_def)

lemma run_files_step: "batch_inv st \<Longrightarrow> step_ok st (run_files p files st)"
proof (induction files arbitrary: st)
  case Nil
  then show ?case by (simp add: step_ok_refl)
next
  case (Cons f fs)
  have a: "step_ok st (process_file p f st)" by (rule process_file_step [OF Cons.prems])
  then have "batch_inv (process_file p f st)" by (simp add: step_ok_def)
  from Cons.IH [OF this] a show ?case
    by (auto intro: step_ok_trans)
qed

lemma batch_inv_run_files: "batch_inv (run_files p files initial_state)"
  using run_files_step [OF batch_inv_initial, of p files] by (simp add: step_ok_def)

lemma run_files_warnings:
  "warnings (run_files p files st) = warnings st @ concat (file_warnings p files st)"
proof (induction files arbitrary: st)
  case Nil
  show ?case by simp
next
  case (Cons f fs)
  from process_file_warnings [of p f st] obtain ws where
    ws: "warnings (process_file p f st) = warnings st @ ws" by blast
  show ?case by (simp add: Cons.IH ws)
qed

lemma file_warnings_length: "length (file_warnings p files st) = length files"
  by (induction files arbitrary: st) simp_all

lemma file_warnings_attributed:
  "i < length files \<Longrightarrow> w \<in> set (file_warnings p files st ! i) \<Longrightarrow>
     warning_file w = name (files ! i)"
proof (induction files arbitrary: st i)
  case Nil
  then show ?case by simp
next
  case (Cons f fs)
  from process_file_warnings [of p f st] obtain ws where
    ws: "warnings (process_file p f st) = warnings st @ ws"
      "\<forall>w \<in> set ws. warning_file w = name f" by blast
  show ?case
  proof (cases i)
    case 0
    with Cons.prems ws show ?thesis by simp
  next
    case (Suc j)
    with Cons.prems have "j < length fs"
      "w \<in> set (file_warnings p fs (process_file p f st) ! j)" by simp_all
    from Cons.IH [OF this] Suc show ?thesis by simp
  qed
qed

lemma file_warnings_skipped:
  "i < length files \<Longrightarrow> skipped p (files ! i) \<Longrightarrow>
     \<exists>w. file_warnings p files st ! i = [w] \<and> warning_file w = name (files ! i)"
proof (induction files arbitrary: st i)
  case Nil
  then show ?case by simp
next
  case (Cons f fs)
  show ?case
  proof (cases i)
    case 0
    with Cons.prems have "skipped p f" by simp
    from skipped_step [OF this, of st] obtain w st1 where
      "process_file p f st = warn w st1" "warning_file w = name f" "warnings st1 = warnings st"
      by blast
    with 0 show ?thesis by simp
  next
    case (Suc j)
    with Cons.prems have "j < length fs" "skipped p (fs ! j)" by simp_all
    from Cons.IH [OF this] Suc show ?thesis by simp
  qed
qed

lemma tables_warn [simp]: "tables (warn w st) = tables st"
  by (simp add: tables_def)

lemma tables_eq_iff: "tables st = tables st' \<longleftrightarrow> st' = st\<lparr>warnings := warnings st'\<rparr>"
  by (cases st; cases st') (auto simp: tables_def)

lemma rowPtr_of_warnings_update [simp]: "rowPtr_of (st\<lparr>warnings := ws\<rparr>) k = rowPtr_of st k"
  by (simp add: rowPtr_of_def)

lemma clear_once_frame:
  "clear_once p k (st\<lparr>warnings := ws\<rparr>) =
     (case clear_once p k st of Inl e \<Rightarrow> Inl e | Inr st1 \<Rightarrow> Inr (st1\<lparr>warnings := ws\<rparr>))"
  by (simp add: clear_once_def split: option.splits)

lemma write_file_frame:
  "tables (write_file p f k rows (st\<lparr>warnings := ws\<rparr>)) = tables (write_file p f k rows st)"
  by (simp add: write_file_def Let_def tables_def warn_def split: option.splits)

lemma process_file_frame:
  "tables (process_file p f (st\<lparr>warnings := ws\<rparr>)) = tables (process_file p f st)"
proof (cases "extractMonthFromFileName (name f)")
  case None
  show ?thesis unfolding process_file_unrouted [OF None] by (simp add: tables_def)
next
  case (Some month)
  show ?thesis
  proof (cases "sheet_exists p month")
    case False
    show ?thesis unfolding process_file_no_sheet [OF Some False] by (simp add: tables_def)
  next
    case True
    show ?thesis
    proof (cases "clear_once p month st")
      case (Inl e)
      then have "clear_once p month (st\<lparr>warnings := ws\<rparr>) = Inl e"
        by (simp add: clear_once_frame)
      from process_file_clear_rejected [OF Some True this]
        process_file_clear_rejected [OF Some True Inl]
      show ?thesis by (simp add: tables_def)
    next
      case (Inr st1)
      then have "clear_once p month (st\<lparr>warnings := ws\<rparr>) = Inr (st1\<lparr>warnings := ws\<rparr>)"
        by (simp add: clear_once_frame)
      from process_file_routed [OF Some True this] process_file_routed [OF Some True Inr]
      show ?thesis
        by (auto simp: write_file_frame split: sum.splits) (simp_all add: tables_def)
    qed
  qed
qed

lemma process_file_tables:
  assumes "tables st = tables st'"
  shows "tables (process_file p f st) = tables (process_file p f st')"
proof -
  from assms have "st' = st\<lparr>warnings := warnings st'\<rparr>" by (simp add: tables_eq_iff)
  then show ?thesis using process_file_frame [where p = p and f = f and st = st and ws = "warnings st'"] by simp
qed

lemma run_files_tables:
  "tables st = tables st' \<Longrightarrow> tables (run_files p files st) = tables (run_files p files st')"
proof (induction files arbitrary: st st')
  case Nil
  then show ?case by simp
next
  case (Cons f fs)
  from Cons.IH [OF process_file_tables [OF Cons.prems]] show ?case by simp
qed

lemma unrouted_tables:
  assumes "extractMonthFromFileName (name f) = None
      \<or> (\<exists>m. extractMonthFromFileName (name f) = Some m \<and> \<not> sheet_exists p m)"
  shows "tables (process_file p f st) = tables st"
  using assms process_file_unrouted [of f p st] process_file_no_sheet [of f _ p st]
  by auto

lemma run_files_parser_errors:
  "run_files (p\<lparr>papa_parse := (\<lambda>t. map_sum id (\<lambda>r. r\<lparr>errors := es t\<rparr>) (papa_parse p t))\<rparr>) files st
     = run_files p files st"
  by (induction files arbitrary: st) (simp_all add: parser_errors_not_recorded)

lemma importCsvQuick_parser_errors:
  "importCsvQuick (p\<lparr>papa_parse := (\<lambda>t. map_sum id (\<lambda>r. r\<lparr>errors := es t\<rparr>) (papa_parse p t))\<rparr>) files
     = importCsvQuick p files"
  by (simp add: importCsvQuick_def run_files_parser_errors)

section \<open>The examples\<close>

text \<open>Facts about the example inputs, obtained by evaluation and from the lemmas above.\<close>

lemma june_route: "extractMonthFromFileName (name june_file) = Some ''6''"
  by code_simp

lemma june_table: "parsed_rows demo_platform june_file = Inr june_rows"
  by code_simp

lemma bogus_route: "extractMonthFromFileName (name bogus_file) = None"
  by code_simp

lemma july_route: "extractMonthFromFileName (name july_file) = Some ''7''"
  by code_simp

lemma july_table: "parsed_rows demo_platform july_file = Inr [[''h''], [''7'']]"
  by code_simp

lemma header_only_route: "extractMonthFromFileName (name header_only_file) = Some ''6''"
  by code_simp

lemma header_only_table: "parsed_rows demo_platform header_only_file = Inr [[''h'', ''k'']]"
  by code_simp

lemma undecodable_route: "extractMonthFromFileName (name undecodable_file) = Some ''6''"
  by code_simp

lemma undecodable_read:
  "readCsvFile demo_platform (bytes undecodable_file) =
     Inl (Thrown ''Failed to fetch dynamically imported module'')"
  by (simp add: readCsvFile_def demo_platform_def TextDecoder_decode_def has_utf8_bom_def
      undecodable_file_def)

lemma demo_accepts: "excel_run_error demo_platform req = None"
  by (simp add: demo_platform_def)

lemma demo_sheet: "sheet_exists demo_platform ''6''"
  by (simp add: demo_platform_def)

lemma demo_sheet7: "sheet_exists demo_platform ''7''"
  by (simp add: demo_platform_def)

lemma inv_198: "batch_inv state_at_198"
  by (simp add: batch_inv_def state_at_198_def last_write_def)


lemma june_first_pass:
  "process_file demo_platform june_file initial_state =
     \<lparr>sheetRowPtr = [''6'' \<mapsto> 9], sheetCleared = [''6'' \<mapsto> True], warnings = [],
      grid = [ClearRange ''6'',
              WriteRows ''6'' 4 (fileNameRow (name june_file)) (map normalizeRow (drop 1 june_rows))]\<rparr>"
proof -
  let ?st1 = "initial_state\<lparr>sheetRowPtr := (sheetRowPtr initial_state)(''6'' \<mapsto> 4),
      sheetCleared := (sheetCleared initial_state)(''6'' \<mapsto> True),
      grid := grid initial_state @ [ClearRange ''6'']\<rparr>"
  have unseen: "sheetCleared initial_state ''6'' \<noteq> Some True"
    by (simp add: initial_state_def)
  note cl = clear_once_unseen [OF unseen demo_accepts]
  have some: "2 \<le> length june_rows" by (simp add: june_rows_def)
  have rp: "rowPtr_of ?st1 ''6'' = 4" by (simp add: rowPtr_of_def)
  have fits: "rowPtr_of ?st1 ''6'' + int (length june_rows) - 1 \<le> 200"
    unfolding rp by (simp add: june_rows_def)
  from process_file_fits [OF june_route demo_sheet cl june_table some fits demo_accepts]
  show ?thesis unfolding rp by (simp add: initial_state_def june_rows_def)
qed

lemma july_after_june:
  assumes "sheetCleared st ''7'' \<noteq> Some True"
  shows "process_file demo_platform july_file st =
     st\<lparr>sheetRowPtr := (sheetRowPtr st)(''7'' \<mapsto> 5),
        sheetCleared := (sheetCleared st)(''7'' \<mapsto> True),
        grid := grid st @ [ClearRange ''7'',
          WriteRows ''7'' 4 (fileNameRow (name july_file)) [normalizeRow [''7'']]]\<rparr>"
proof -
  let ?st1 = "st\<lparr>sheetRowPtr := (sheetRowPtr st)(''7'' \<mapsto> 4),
      sheetCleared := (sheetCleared st)(''7'' \<mapsto> True),
      grid := grid st @ [ClearRange ''7'']\<rparr>"
  note cl = clear_once_unseen [OF assms demo_accepts]
  have some: "2 \<le> length [[''h''], [''7'']]" by simp
  have rp: "rowPtr_of ?st1 ''7'' = 4" by (simp add: rowPtr_of_def)
  have fits: "rowPtr_of ?st1 ''7'' + int (length [[''h''], [''7'']]) - 1 \<le> 200"
    unfolding rp by simp
  from process_file_fits [OF july_route demo_sheet7 cl july_table some fits demo_accepts]
  show ?thesis unfolding rp by simp
qed

lemma three_files_run:
  "run_files demo_platform [june_file, bogus_file, july_file] initial_state =
     \<lparr>sheetRowPtr = [''6'' \<mapsto> 9, ''7'' \<mapsto> 5], sheetCleared = [''6'' \<mapsto> True, ''7'' \<mapsto> True],
      warnings = [MonthNotExtracted (name bogus_file)],
      grid = [ClearRange ''6'',
              WriteRows ''6'' 4 (fileNameRow (name june_file)) (map normalizeRow (drop 1 june_rows)),
              ClearRange ''7'',
              WriteRows ''7'' 4 (fileNameRow (name july_file)) [normalizeRow [''7'']]]\<rparr>"
proof -
  have "sheetCleared (warn (MonthNotExtracted (name bogus_file))
      (process_file demo_platform june_file initial_state)) ''7'' \<noteq> Some True"
    by (simp add: june_first_pass)
  from july_after_june [OF this] show ?thesis
    by (simp add: process_file_unrouted [OF bogus_route] june_first_pass warn_def)
qed

lemma bogus_skipped: "skipped demo_platform bogus_file"
  by (simp add: skipped_def bogus_route)


lemma reporting_platform_alt:
  "reporting_platform =
     demo_platform\<lparr>papa_parse := (\<lambda>t. map_sum id
        (\<lambda>r. r\<lparr>errors := (if 44 \<in> set t then [] else [''UndetectableDelimiter''])\<rparr>)
        (papa_parse demo_platform t))\<rparr>"
  by (simp add: reporting_platform_def demo_platform_def)

lemma reporting_run: "run_files reporting_platform files st = run_files demo_platform files st"
  unfolding reporting_platform_alt by (rule run_files_parser_errors)

lemma july_alone:
  "run_files demo_platform [july_file] initial_state =
     \<lparr>sheetRowPtr = [''7'' \<mapsto> 5], sheetCleared = [''7'' \<mapsto> True], warnings = [],
      grid = [ClearRange ''7'',
              WriteRows ''7'' 4 (fileNameRow (name july_file)) [normalizeRow [''7'']]]\<rparr>"
proof -
  have "sheetCleared initial_state ''7'' \<noteq> Some True" by (simp add: initial_state_def)
  from july_after_june [OF this] show ?thesis by (simp add: initial_state_def)
qed

lemma july_text:
  "readCsvFile reporting_platform (bytes july_file) =
     Inr \<lparr>decoded_text = [0x68, 0x0A, 0x37, 0x0A], decoded_encoding = UTF_8\<rparr>"
  by (simp add: readCsvFile_def reporting_platform_def demo_platform_def TextDecoder_decode_def
      has_utf8_bom_def july_file_def)

lemma july_reported:
  "papa_parse reporting_platform [0x68, 0x0A, 0x37, 0x0A] =
     Inr \<lparr>data = [[''h''], [''7'']], errors = [''UndetectableDelimiter'']\<rparr>"
  by code_simp

section \<open>The claims\<close>

text \<open>
  C1. Let the file name, after a final \<open>.csv\<close> in any letter case is removed, consist of
  \<open>enavi\<close>, exactly six decimal digits and an opening parenthesis, followed by anything.
  Then the router reads the first four digits as a number; when it is at least 2000 the
  month is the number formed by the fifth and sixth digit, otherwise the number formed by
  the third and fourth digit. The month is returned when it lies between 1 and 12, and
  nothing is returned otherwise. A name of any other form yields nothing as well. The
  function is total: it never fails.
\<close>

theorem extractMonthFromFileName_route:
  "(\<forall>ds rest. strip_csv_ext fileName = ''enavi'' @ ds @ CHR ''('' # rest \<and> length ds = 6
        \<and> list_all is_digit ds \<longrightarrow>
      extractMonthFromFileName fileName =
        (if 1 \<le> month_of_digits ds \<and> month_of_digits ds \<le> 12
         then Some (toString (Num (month_of_digits ds))) else None))
   \<and> ((\<nexists>ds rest. strip_csv_ext fileName = ''enavi'' @ ds @ CHR ''('' # rest \<and> length ds = 6
        \<and> list_all is_digit ds) \<longrightarrow> extractMonthFromFileName fileName = None)"
proof (intro conjI allI impI)
  fix ds rest
  assume "strip_csv_ext fileName = ''enavi'' @ ds @ CHR ''('' # rest \<and> length ds = 6
        \<and> list_all is_digit ds"
  then have "match_enavi (strip_csv_ext fileName) = Some ds"
    using match_enavi_iff by blast
  then show "extractMonthFromFileName fileName =
        (if 1 \<le> month_of_digits ds \<and> month_of_digits ds \<le> 12
         then Some (toString (Num (month_of_digits ds))) else None)"
    by (rule extractMonth_of_match)
next
  assume "\<nexists>ds rest. strip_csv_ext fileName = ''enavi'' @ ds @ CHR ''('' # rest \<and> length ds = 6
        \<and> list_all is_digit ds"
  then have "match_enavi (strip_csv_ext fileName) = None"
    using match_enavi_None by blast
  then show "extractMonthFromFileName fileName = None"
    by (simp add: extractMonthFromFileName_def)
qed

theorem extractMonthFromFileName_route_witness:
  "extractMonthFromFileName ''enavi202506(3034).csv'' = Some ''6''
   \<and> extractMonthFromFileName ''enavi191215(3034).CSV'' = Some ''12''
   \<and> extractMonthFromFileName ''enavi250615(3034).csv'' = None
   \<and> extractMonthFromFileName ''bogus.csv'' = None"
proof -
  have a: "strip_csv_ext ''enavi202506(3034).csv'' = ''enavi'' @ ''202506'' @ CHR ''('' # ''3034)''
      \<and> length ''202506'' = 6 \<and> list_all is_digit ''202506''"
    by (simp add: strip_csv_ext_def is_digit_def)
  have b: "strip_csv_ext ''enavi191215(3034).CSV'' = ''enavi'' @ ''191215'' @ CHR ''('' # ''3034)''
      \<and> length ''191215'' = 6 \<and> list_all is_digit ''191215''"
    by (simp add: strip_csv_ext_def is_digit_def)
  have c: "strip_csv_ext ''enavi250615(3034).csv'' = ''enavi'' @ ''250615'' @ CHR ''('' # ''3034)''
      \<and> length ''250615'' = 6 \<and> list_all is_digit ''250615''"
    by (simp add: strip_csv_ext_def is_digit_def)
  have d: "\<nexists>ds rest. strip_csv_ext ''bogus.csv'' = ''enavi'' @ ds @ CHR ''('' # rest
      \<and> length ds = 6 \<and> list_all is_digit ds"
    by (simp add: strip_csv_ext_def)
  have m: "month_of_digits ''202506'' = 6" "month_of_digits ''191215'' = 12"
    "month_of_digits ''250615'' = 15"
    by (simp_all add: month_of_digits_def digit_value_def)
  have t: "toString (Num 6) = ''6''" "toString (Num 12) = ''12''"
    by (simp_all add: toString_def nat_toString.simps)
  show ?thesis
    using extractMonthFromFileName_route [of "''enavi202506(3034).csv''", THEN conjunct1, rule_format, OF a]
      extractMonthFromFileName_route [of "''enavi191215(3034).CSV''", THEN conjunct1, rule_format, OF b]
      extractMonthFromFileName_route [of "''enavi250615(3034).csv''", THEN conjunct1, rule_format, OF c]
      extractMonthFromFileName_route [of "''bogus.csv''", THEN conjunct2, rule_format, OF d]
    by (simp add: m t)
qed

text \<open>
  C2, as the code has it. A file routed to a sheet that exists and has not been cleared in
  this batch, with a header row and five data rows, where the workbook accepts the clear
  and the write: the sheet is cleared, the file-name row goes to row 4 and the five
  normalised data rows to rows 5 to 9; the placement starts at row 4, its data end row
  and the last row written are 9 (not 10), nothing is truncated, no warning is added,
  and the row pointer of the sheet becomes 9.
\<close>

theorem first_placement:
  assumes route: "extractMonthFromFileName (name file) = Some month"
    and sheet: "sheet_exists p month"
    and unseen: "sheetCleared st month \<noteq> Some True"
    and clear_ok: "excel_run_error p (ClearRange month) = None"
    and table: "parsed_rows p file = Inr rows"
    and six: "length rows = 6"
    and write_ok: "excel_run_error p
        (WriteRows month 4 (fileNameRow (name file)) (map normalizeRow (drop 1 rows))) = None"
  shows "place 4 (map normalizeRow (drop 1 rows)) =
           \<lparr>fileNameRowNum = 4, dataStartRow = 5, dataEndRow = 9,
            actualDataRows = map normalizeRow (drop 1 rows), truncated = False\<rparr>
       \<and> length (map normalizeRow (drop 1 rows)) = 5
       \<and> written_endRow (place 4 (map normalizeRow (drop 1 rows))) = 9
       \<and> process_file p file st =
           st\<lparr>sheetRowPtr := (sheetRowPtr st)(month \<mapsto> 9),
              sheetCleared := (sheetCleared st)(month \<mapsto> True),
              grid := grid st @ [ClearRange month,
                WriteRows month 4 (fileNameRow (name file)) (map normalizeRow (drop 1 rows))]\<rparr>
       \<and> rowPtr_of (process_file p file st) month = 9"
proof -
  let ?st1 = "st\<lparr>sheetRowPtr := (sheetRowPtr st)(month \<mapsto> 4),
                     sheetCleared := (sheetCleared st)(month \<mapsto> True),
                     grid := grid st @ [ClearRange month]\<rparr>"
  let ?rows = "map normalizeRow (drop 1 rows)"
  have len: "length ?rows = 5" using six by simp
  have pl: "place 4 ?rows = \<lparr>fileNameRowNum = 4, dataStartRow = 5, dataEndRow = 9,
            actualDataRows = ?rows, truncated = False\<rparr>"
    using place_fits [of 4 ?rows] len by simp
  have rp: "rowPtr_of ?st1 month = 4" by (simp add: rowPtr_of_def)
  have acc: "excel_run_error p (WriteRows month (fileNameRowNum (place (rowPtr_of ?st1 month) ?rows))
      (fileNameRow (name file)) (actualDataRows (place (rowPtr_of ?st1 month) ?rows))) = None"
    unfolding rp pl using write_ok by simp
  have w: "write_file p (name file) month (drop 1 rows) ?st1 =
      st\<lparr>sheetRowPtr := (sheetRowPtr st)(month \<mapsto> 9),
              sheetCleared := (sheetCleared st)(month \<mapsto> True),
              grid := grid st @ [ClearRange month,
                WriteRows month 4 (fileNameRow (name file)) ?rows]\<rparr>"
    unfolding write_file_accepted [OF acc] unfolding rp pl
    using six by (simp add: next_rowPtr_def)
  have pf: "process_file p file st = write_file p (name file) month (drop 1 rows) ?st1"
    using process_file_routed [OF route sheet clear_once_unseen [OF unseen clear_ok]] table six
    by simp
  show ?thesis
    unfolding pf w using pl len by (simp add: written_endRow_def rowPtr_of_def)
qed

theorem first_placement_witness:
  "process_file demo_platform june_file initial_state =
     \<lparr>sheetRowPtr = [''6'' \<mapsto> 9], sheetCleared = [''6'' \<mapsto> True], warnings = [],
      grid = [ClearRange ''6'',
              WriteRows ''6'' 4 (fileNameRow (name june_file)) (map normalizeRow (drop 1 june_rows))]\<rparr>
   \<and> dataEndRow (place 4 (map normalizeRow (drop 1 june_rows))) = 9"
proof -
  have unseen: "sheetCleared initial_state ''6'' \<noteq> Some True"
    by (simp add: initial_state_def)
  have six: "length june_rows = 6" by (simp add: june_rows_def)
  from first_placement [OF june_route demo_sheet unseen demo_accepts june_table six demo_accepts]
  show ?thesis by (simp add: initial_state_def)
qed

text \<open>
  C2 as stated gives the end row as 10. For the example file, a header and five data rows
  on the unseen sheet 6, the end row computed and the last row written are both 9.
\<close>

theorem first_placement_endRow_counterexample:
  "parsed_rows demo_platform june_file = Inr june_rows
   \<and> length june_rows = 6
   \<and> grid (process_file demo_platform june_file initial_state) =
       [ClearRange ''6'',
        WriteRows ''6'' 4 (fileNameRow (name june_file)) (map normalizeRow (drop 1 june_rows))]
   \<and> written_endRow (place 4 (map normalizeRow (drop 1 june_rows))) = 9
   \<and> dataEndRow (place 4 (map normalizeRow (drop 1 june_rows))) \<noteq> 10
   \<and> written_endRow (place 4 (map normalizeRow (drop 1 june_rows))) \<noteq> 10"
  by code_simp



text \<open>
  C4, as the code has it. In a state that satisfies the invariant of a batch, as every
  state reached in a batch does, a file whose table has no row or only the header row
  adds exactly one warning, which names the file, and sends no write;
  the row pointer the loop reads for any sheet is the same before and after. The clear
  of the target sheet is decided before the file is read: when the file is routed to an
  existing sheet that is not yet cleared and the workbook accepts the clear, the sheet is
  cleared, its flag is set and its row pointer entry is set to 4, although nothing is
  written; when the sheet is already cleared the state changes by the warning only.
\<close>

theorem empty_table_skip:
  assumes inv: "batch_inv st"
    and table: "parsed_rows p f = Inr rows"
    and few: "length rows \<le> 1"
  shows "(\<exists>w. warnings (process_file p f st) = warnings st @ [w] \<and> warning_file w = name f)
       \<and> (\<forall>k. rowPtr_of (process_file p f st) k = rowPtr_of st k)
       \<and> (\<forall>req \<in> set (grid (process_file p f st)).
             req \<in> set (grid st) \<or> (\<exists>k. req = ClearRange k))
       \<and> (\<forall>month. extractMonthFromFileName (name f) = Some month \<and> sheet_exists p month
             \<and> sheetCleared st month \<noteq> Some True \<and> excel_run_error p (ClearRange month) = None \<longrightarrow>
             process_file p f st =
               st\<lparr>sheetRowPtr := (sheetRowPtr st)(month \<mapsto> 4),
                  sheetCleared := (sheetCleared st)(month \<mapsto> True),
                  warnings := warnings st @
                    [if rows = [] then CsvEmpty (name f) else NoDataRows (name f)],
                  grid := grid st @ [ClearRange month]\<rparr>)
       \<and> (\<forall>month. extractMonthFromFileName (name f) = Some month \<and> sheet_exists p month
             \<and> sheetCleared st month = Some True \<longrightarrow>
             process_file p f st =
               warn (if rows = [] then CsvEmpty (name f) else NoDataRows (name f)) st)"
proof -
  define w0 where "w0 = (if rows = [] then CsvEmpty (name f) else NoDataRows (name f))"
  have shape: "(\<exists>w. process_file p f st = warn w st \<and> warning_file w = name f)
      \<or> (\<exists>month st1. clear_once p month st = Inr st1 \<and> process_file p f st = warn w0 st1)"
  proof (cases "extractMonthFromFileName (name f)")
    case None
    have "warning_file (MonthNotExtracted (name f)) = name f" by simp
    then show ?thesis unfolding process_file_unrouted [OF None] by blast
  next
    case (Some month)
    show ?thesis
    proof (cases "sheet_exists p month")
      case False
      have "warning_file (SheetMissing (name f) month) = name f" by simp
      then show ?thesis unfolding process_file_no_sheet [OF Some False] by blast
    next
      case True
      show ?thesis
      proof (cases "clear_once p month st")
        case (Inl e)
        have "warning_file (Caught (name f) e) = name f" by simp
        then show ?thesis unfolding process_file_clear_rejected [OF Some True Inl] by blast
      next
        case (Inr st1)
        from process_file_few_rows [OF Some True Inr table few] Inr
        show ?thesis unfolding w0_def by blast
      qed
    qed
  qed
  have wf: "warning_file w0 = name f" by (simp add: w0_def)
  have a: "\<exists>w. warnings (process_file p f st) = warnings st @ [w] \<and> warning_file w = name f"
    using shape wf by (auto simp: clear_once_warnings)
  have b: "rowPtr_of (process_file p f st) k = rowPtr_of st k" for k
    using shape clear_once_inv(4) [OF inv] by auto
  have c: "\<forall>req \<in> set (grid (process_file p f st)).
             req \<in> set (grid st) \<or> (\<exists>k. req = ClearRange k)"
    using shape by (auto dest!: clear_once_cases)
  have d: "process_file p f st =
               st\<lparr>sheetRowPtr := (sheetRowPtr st)(month \<mapsto> 4),
                  sheetCleared := (sheetCleared st)(month \<mapsto> True),
                  warnings := warnings st @ [w0],
                  grid := grid st @ [ClearRange month]\<rparr>"
    if "extractMonthFromFileName (name f) = Some month" "sheet_exists p month"
      "sheetCleared st month \<noteq> Some True" "excel_run_error p (ClearRange month) = None"
    for month
    unfolding process_file_few_rows [OF that(1,2) clear_once_unseen [OF that(3,4)] table few]
    by (simp add: warn_def w0_def)
  have e: "process_file p f st = warn w0 st"
    if "extractMonthFromFileName (name f) = Some month" "sheet_exists p month"
      "sheetCleared st month = Some True" for month
    unfolding w0_def
    by (rule process_file_few_rows [OF that(1,2) clear_once_seen [OF that(3)] table few])
  show ?thesis using a b c d e unfolding w0_def by blast
qed

theorem empty_table_skip_witness:
  "process_file demo_platform header_only_file initial_state =
     \<lparr>sheetRowPtr = [''6'' \<mapsto> 4], sheetCleared = [''6'' \<mapsto> True],
      warnings = [NoDataRows (name header_only_file)], grid = [ClearRange ''6'']\<rparr>
   \<and> process_file demo_platform header_only_file state_at_198 =
       warn (NoDataRows (name header_only_file)) state_at_198
   \<and> rowPtr_of (process_file demo_platform header_only_file initial_state) ''6'' =
       rowPtr_of initial_state ''6''"
proof -
  have few: "length [[''h'', ''k'']] \<le> 1" by simp
  have unseen: "sheetCleared initial_state ''6'' \<noteq> Some True"
    by (simp add: initial_state_def)
  have seen: "sheetCleared state_at_198 ''6'' = Some True"
    by (simp add: state_at_198_def)
  note a = empty_table_skip [OF batch_inv_initial header_only_table few]
  note b = empty_table_skip [OF inv_198 header_only_table few]
  from a have a4: "process_file demo_platform header_only_file initial_state =
      initial_state\<lparr>sheetRowPtr := (sheetRowPtr initial_state)(''6'' \<mapsto> 4),
                  sheetCleared := (sheetCleared initial_state)(''6'' \<mapsto> True),
                  warnings := warnings initial_state @ [NoDataRows (name header_only_file)],
                  grid := grid initial_state @ [ClearRange ''6'']\<rparr>"
    using header_only_route demo_sheet unseen demo_accepts by simp
  from a have a2: "rowPtr_of (process_file demo_platform header_only_file initial_state) ''6'' =
       rowPtr_of initial_state ''6''" by blast
  from b have b5: "process_file demo_platform header_only_file state_at_198 =
       warn (NoDataRows (name header_only_file)) state_at_198"
    using header_only_route demo_sheet seen by simp
  show ?thesis using a4 a2 b5 by (simp add: initial_state_def)
qed

text \<open>
  C4 as stated says that a file without data rows does not trigger the clear on a sheet
  that has not been seen. The example file has only its header row; on the initial state
  its pass sends the clear of sheet 6 and sets the cleared flag and the row pointer entry.
\<close>

theorem empty_table_clears_unseen_sheet_counterexample:
  "parsed_rows demo_platform header_only_file = Inr [[''h'', ''k'']]
   \<and> sheetCleared initial_state ''6'' = None
   \<and> sheetRowPtr initial_state ''6'' = None
   \<and> grid initial_state = []
   \<and> grid (process_file demo_platform header_only_file initial_state) = [ClearRange ''6'']
   \<and> sheetCleared (process_file demo_platform header_only_file initial_state) ''6'' = Some True
   \<and> sheetRowPtr (process_file demo_platform header_only_file initial_state) ''6'' = Some 4"
proof -
  have unseen: "sheetCleared initial_state ''6'' \<noteq> Some True"
    by (simp add: initial_state_def)
  have few: "length [[''h'', ''k'']] \<le> 1" by simp
  from process_file_few_rows [OF header_only_route demo_sheet
      clear_once_unseen [OF unseen demo_accepts] header_only_table few]
  show ?thesis using header_only_table by (simp add: initial_state_def)
qed

text \<open>
  C5, as the code has it. For every platform and every list of files: the call fails
  exactly when some pass has added a warning, and then with one error that carries all
  warnings, those of the first file first, each file's in the order they were added;
  otherwise it succeeds. Every warning names the file during whose pass it was added, so
  a file whose pass adds none is not mentioned (a file written with truncation adds one
  and is mentioned). A file that fails by its name, by a missing sheet, by an error
  thrown while decoding or parsing, or by a table without data rows adds exactly one
  warning. Whatever happens to a file, the files after it are processed from the state
  its pass leaves; and when a file fails by its name or by a missing sheet, the requests
  sent to the workbook in the whole batch are those of the batch without that file.
  Errors that the parser only reports next to the rows it returns are not failures of
  this kind: whatever the parser reports, the requests and the result of the call are
  the same as with no report.
\<close>

theorem batch_warnings_aggregate:
  "snd (importCsvQuick p files) =
     (if concat (file_warnings p files initial_state) = [] then Inr ()
      else Inl (ImportFailed (concat (file_warnings p files initial_state))))
   \<and> fst (importCsvQuick p files) = grid (run_files p files initial_state)
   \<and> length (file_warnings p files initial_state) = length files
   \<and> (\<forall>i < length files. \<forall>w \<in> set (file_warnings p files initial_state ! i).
         warning_file w = name (files ! i))
   \<and> (\<forall>i < length files. skipped p (files ! i) \<longrightarrow>
         (\<exists>w. file_warnings p files initial_state ! i = [w]))
   \<and> (\<forall>xs f ys. files = xs @ f # ys \<longrightarrow>
         run_files p files initial_state =
           run_files p ys (process_file p f (run_files p xs initial_state)))
   \<and> (\<forall>xs f ys. files = xs @ f # ys
         \<and> (extractMonthFromFileName (name f) = None
              \<or> (\<exists>m. extractMonthFromFileName (name f) = Some m \<and> \<not> sheet_exists p m)) \<longrightarrow>
         fst (importCsvQuick p files) = fst (importCsvQuick p (xs @ ys)))
   \<and> (\<forall>es. importCsvQuick
           (p\<lparr>papa_parse := (\<lambda>t. map_sum id (\<lambda>r. r\<lparr>errors := es t\<rparr>) (papa_parse p t))\<rparr>) files
         = importCsvQuick p files)"
proof -
  have h: "\<forall>es. importCsvQuick
           (p\<lparr>papa_parse := (\<lambda>t. map_sum id (\<lambda>r. r\<lparr>errors := es t\<rparr>) (papa_parse p t))\<rparr>) files
         = importCsvQuick p files"
    by (simp add: importCsvQuick_parser_errors)
  have w: "warnings (run_files p files initial_state) = concat (file_warnings p files initial_state)"
    using run_files_warnings [of p files initial_state] by (simp add: initial_state_def)
  have a: "snd (importCsvQuick p files) =
     (if concat (file_warnings p files initial_state) = [] then Inr ()
      else Inl (ImportFailed (concat (file_warnings p files initial_state))))"
    by (simp add: importCsvQuick_def Let_def w)
  have b: "fst (importCsvQuick p fs) = grid (run_files p fs initial_state)" for fs
    by (simp add: importCsvQuick_def Let_def)
  have c: "\<forall>i < length files. \<forall>w \<in> set (file_warnings p files initial_state ! i).
         warning_file w = name (files ! i)"
    using file_warnings_attributed by blast
  have d: "\<forall>i < length files. skipped p (files ! i) \<longrightarrow>
         (\<exists>w. file_warnings p files initial_state ! i = [w])"
    using file_warnings_skipped by blast
  have e: "run_files p files initial_state =
           run_files p ys (process_file p f (run_files p xs initial_state))"
    if "files = xs @ f # ys" for xs f ys
    unfolding that by (simp add: run_files_append)
  have g: "fst (importCsvQuick p files) = fst (importCsvQuick p (xs @ ys))"
    if "files = xs @ f # ys" and u: "extractMonthFromFileName (name f) = None
              \<or> (\<exists>m. extractMonthFromFileName (name f) = Some m \<and> \<not> sheet_exists p m)"
    for xs f ys
  proof -
    let ?s = "run_files p xs initial_state"
    have "tables (process_file p f ?s) = tables ?s" by (rule unrouted_tables [OF u])
    from run_files_tables [OF this, of p ys]
    have "tables (run_files p (xs @ f # ys) initial_state) = tables (run_files p (xs @ ys) initial_state)"
      by (simp add: run_files_append)
    then show ?thesis unfolding b that by (simp add: tables_def)
  qed
  have rest: "snd (importCsvQuick p files) =
     (if concat (file_warnings p files initial_state) = [] then Inr ()
      else Inl (ImportFailed (concat (file_warnings p files initial_state))))
   \<and> fst (importCsvQuick p files) = grid (run_files p files initial_state)
   \<and> length (file_warnings p files initial_state) = length files
   \<and> (\<forall>i < length files. \<forall>w \<in> set (file_warnings p files initial_state ! i).
         warning_file w = name (files ! i))
   \<and> (\<forall>i < length files. skipped p (files ! i) \<longrightarrow>
         (\<exists>w. file_warnings p files initial_state ! i = [w]))
   \<and> (\<forall>xs f ys. files = xs @ f # ys \<longrightarrow>
         run_files p files initial_state =
           run_files p ys (process_file p f (run_files p xs initial_state)))
   \<and> (\<forall>xs f ys. files = xs @ f # ys
         \<and> (extractMonthFromFileName (name f) = None
              \<or> (\<exists>m. extractMonthFromFileName (name f) = Some m \<and> \<not> sheet_exists p m)) \<longrightarrow>
         fst (importCsvQuick p files) = fst (importCsvQuick p (xs @ ys)))"
    using a b [of files] file_warnings_length [of p files initial_state] c d e g
    by blast
  show ?thesis using rest h by simp
qed

theorem batch_warnings_aggregate_witness:
  "importCsvQuick demo_platform [june_file, bogus_file, july_file] =
     ([ClearRange ''6'',
       WriteRows ''6'' 4 (fileNameRow (name june_file)) (map normalizeRow (drop 1 june_rows)),
       ClearRange ''7'',
       WriteRows ''7'' 4 (fileNameRow (name july_file)) [normalizeRow [''7'']]],
      Inl (ImportFailed [MonthNotExtracted (name bogus_file)]))
   \<and> fst (importCsvQuick demo_platform [june_file, bogus_file, july_file]) =
       fst (importCsvQuick demo_platform ([june_file] @ [july_file]))
   \<and> (\<exists>w. file_warnings demo_platform [june_file, bogus_file, july_file] initial_state ! 1 = [w])
   \<and> concat (file_warnings demo_platform [june_file, bogus_file, july_file] initial_state) =
       [MonthNotExtracted (name bogus_file)]
   \<and> importCsvQuick reporting_platform [june_file, bogus_file, july_file] =
       importCsvQuick demo_platform [june_file, bogus_file, july_file]"
proof -
  note t = batch_warnings_aggregate [of demo_platform "[june_file, bogus_file, july_file]"]
  note t1 = t [THEN conjunct1]
  note t5 = t [THEN conjunct2, THEN conjunct2, THEN conjunct2, THEN conjunct2, THEN conjunct1]
  note t7 = t [THEN conjunct2, THEN conjunct2, THEN conjunct2, THEN conjunct2, THEN conjunct2,
      THEN conjunct2, THEN conjunct1]
  note t8 = t [THEN conjunct2, THEN conjunct2, THEN conjunct2, THEN conjunct2, THEN conjunct2,
      THEN conjunct2, THEN conjunct2]
  have split: "[june_file, bogus_file, july_file] = [june_file] @ bogus_file # [july_file]"
    by simp
  have u: "extractMonthFromFileName (name bogus_file) = None
      \<or> (\<exists>m. extractMonthFromFileName (name bogus_file) = Some m \<and> \<not> sheet_exists demo_platform m)"
    using bogus_route by simp
  have same: "fst (importCsvQuick demo_platform [june_file, bogus_file, july_file]) =
       fst (importCsvQuick demo_platform ([june_file] @ [july_file]))"
    using t7 [rule_format, of "[june_file]" bogus_file "[july_file]"] split u by blast
  have i1: "(1::nat) < length [june_file, bogus_file, july_file]" by simp
  have sk: "skipped demo_platform ([june_file, bogus_file, july_file] ! 1)"
    by (simp add: bogus_skipped)
  have one: "\<exists>w. file_warnings demo_platform [june_file, bogus_file, july_file] initial_state ! 1 = [w]"
    by (rule t5 [rule_format, OF i1 sk])
  have run: "importCsvQuick demo_platform [june_file, bogus_file, july_file] =
     ([ClearRange ''6'',
       WriteRows ''6'' 4 (fileNameRow (name june_file)) (map normalizeRow (drop 1 june_rows)),
       ClearRange ''7'',
       WriteRows ''7'' 4 (fileNameRow (name july_file)) [normalizeRow [''7'']]],
      Inl (ImportFailed [MonthNotExtracted (name bogus_file)]))"
    by (simp add: importCsvQuick_def Let_def three_files_run del: run_files_Cons)
  from t1 run have ws: "concat (file_warnings demo_platform [june_file, bogus_file, july_file] initial_state) =
       [MonthNotExtracted (name bogus_file)]"
    by (auto split: if_splits)
  have rep: "importCsvQuick reporting_platform [june_file, bogus_file, july_file] =
       importCsvQuick demo_platform [june_file, bogus_file, july_file]"
    unfolding reporting_platform_alt by (rule t8 [rule_format])
  show ?thesis
    apply (intro conjI)
        apply (rule run)
       apply (rule same)
      apply (rule one)
     apply (rule ws)
    apply (rule rep)
    done
qed

text \<open>
  C5 as stated counts a parse problem among the failures that are recorded as warnings.
  For the July file, a single column without a comma, the parser reports that it could
  not detect the delimiter and returns the two rows; the pass adds no warning, the file
  is written, and the call succeeds.
\<close>

theorem reported_parse_errors_counterexample:
  "readCsvFile reporting_platform (bytes july_file) =
     Inr \<lparr>decoded_text = [0x68, 0x0A, 0x37, 0x0A], decoded_encoding = UTF_8\<rparr>
   \<and> papa_parse reporting_platform [0x68, 0x0A, 0x37, 0x0A] =
       Inr \<lparr>data = [[''h''], [''7'']], errors = [''UndetectableDelimiter'']\<rparr>
   \<and> warnings (run_files reporting_platform [july_file] initial_state) = []
   \<and> importCsvQuick reporting_platform [july_file] =
       ([ClearRange ''7'', WriteRows ''7'' 4 (fileNameRow (name july_file)) [normalizeRow [''7'']]],
        Inr ())"
  using july_text july_reported
  by (simp add: importCsvQuick_def Let_def reporting_run july_alone del: run_files_Cons)

text \<open>
  C6 at a failing input. The two bytes 82 FF carry no byte-order mark and are not UTF-8,
  so all three importers turn to the Shift-JIS conversion; here its module cannot be
  loaded. The single-file importer reports an encoding-detection failure, as the claim
  says. \<open>readCsvFile\<close> of the multi-file importer lets the loader's own error through,
  and the batch records it as that file's warning with the loader's message only. The
  ribbon command returns a text decoded with the non-fatal UTF-8 decoder.
\<close>

theorem readCsvFile_unlabelled_failure:
  "\<not> has_utf8_bom (bytes undecodable_file)
   \<and> utf8_decode_fatal demo_platform (bytes undecodable_file) = None
   \<and> sjis_Convert demo_platform (bytes undecodable_file) =
       Inl ''Failed to fetch dynamically imported module''
   \<and> readCsvFile demo_platform (bytes undecodable_file) =
       Inl (Thrown ''Failed to fetch dynamically imported module'')
   \<and> importCsvQuick_A1_decode demo_platform (bytes undecodable_file) =
       Inl (EncodingDetectionFailed ''Failed to fetch dynamically imported module'')
   \<and> importCsvFromRibbon_decode demo_platform (bytes undecodable_file) =
       Inr \<lparr>decoded_text = [0xFFFD, 0xFFFD], decoded_encoding = UTF_8_forced\<rparr>
   \<and> warnings (process_file demo_platform undecodable_file initial_state) =
       [Caught (name undecodable_file) (Thrown ''Failed to fetch dynamically imported module'')]"
proof -
  have unseen: "sheetCleared initial_state ''6'' \<noteq> Some True"
    by (simp add: initial_state_def)
  have table: "parsed_rows demo_platform undecodable_file =
      Inl (Thrown ''Failed to fetch dynamically imported module'')"
    by (simp add: parsed_rows_def undecodable_read)
  have w: "warnings (process_file demo_platform undecodable_file initial_state) =
       [Caught (name undecodable_file) (Thrown ''Failed to fetch dynamically imported module'')]"
    using process_file_routed [OF undecodable_route demo_sheet
        clear_once_unseen [OF unseen demo_accepts]]
    by (simp add: table initial_state_def)
  have rest: "\<not> has_utf8_bom (bytes undecodable_file)
   \<and> utf8_decode_fatal demo_platform (bytes undecodable_file) = None
   \<and> sjis_Convert demo_platform (bytes undecodable_file) =
       Inl ''Failed to fetch dynamically imported module''
   \<and> importCsvQuick_A1_decode demo_platform (bytes undecodable_file) =
       Inl (EncodingDetectionFailed ''Failed to fetch dynamically imported module'')
   \<and> importCsvFromRibbon_decode demo_platform (bytes undecodable_file) =
       Inr \<lparr>decoded_text = [0xFFFD, 0xFFFD], decoded_encoding = UTF_8_forced\<rparr>"
    by (simp add: importCsvQuick_A1_decode_def importCsvFromRibbon_decode_def
        demo_platform_def TextDecoder_decode_def has_utf8_bom_def undecodable_file_def)
  show ?thesis using w rest undecodable_read by simp
qed

text \<open>
  C7, as the code has it. For every byte sequence that begins with the three bytes EF BB BF,
  \<open>readCsvFile\<close> hands exactly the bytes after these three to the UTF-8 decoder that was
  created without \<open>fatal\<close>, and reports UTF-8 with the text that decoder returns. It never
  fails on this path: the fatal decoder, which would reject an invalid byte sequence, is
  not consulted.
\<close>

theorem readCsvFile_bom:
  assumes "has_utf8_bom uint8Array"
  shows "readCsvFile p uint8Array =
           Inr \<lparr>decoded_text = utf8_decode p (drop 3 uint8Array), decoded_encoding = UTF_8\<rparr>
       \<and> take 3 uint8Array = [0xEF, 0xBB, 0xBF]
       \<and> length (drop 3 uint8Array) = length uint8Array - 3"
proof -
  from assms have l: "3 \<le> length uint8Array"
    by (simp add: has_utf8_bom_def)
  then obtain a b c rest where xs: "uint8Array = a # b # c # rest"
    by (cases uint8Array; cases "tl uint8Array"; cases "tl (tl uint8Array)") auto
  from assms have "a = 0xEF" "b = 0xBB" "c = 0xBF"
    unfolding xs by (simp_all add: has_utf8_bom_def)
  then show ?thesis using assms unfolding xs by (simp add: readCsvFile_def)
qed

theorem readCsvFile_bom_witness:
  "readCsvFile demo_platform [0xEF, 0xBB, 0xBF, 0x41] =
     Inr \<lparr>decoded_text = [0x41], decoded_encoding = UTF_8\<rparr>"
proof -
  have h: "has_utf8_bom [0xEF, 0xBB, 0xBF, 0x41]" by (simp add: has_utf8_bom_def)
  have d: "utf8_decode demo_platform [0x41] = [0x41]" by code_simp
  from readCsvFile_bom [OF h, of demo_platform] show ?thesis by (simp add: d)
qed

text \<open>
  C7 as stated asks for strict decoding that fails loudly. The four bytes EF BB BF FF
  start with the byte-order mark; the strict decoder rejects the remaining byte FF, and
  \<open>readCsvFile\<close> still returns a text, in which FF has become U+FFFD.
\<close>

theorem readCsvFile_bom_not_strict_counterexample:
  "has_utf8_bom [0xEF, 0xBB, 0xBF, 0xFF]
   \<and> utf8_decode_fatal demo_platform (drop 3 [0xEF, 0xBB, 0xBF, 0xFF]) = None
   \<and> readCsvFile demo_platform [0xEF, 0xBB, 0xBF, 0xFF] =
       Inr \<lparr>decoded_text = [0xFFFD], decoded_encoding = UTF_8\<rparr>"
  by (simp add: readCsvFile_def demo_platform_def TextDecoder_decode_def has_utf8_bom_def)

text \<open>
  C8. Take any batch and cut it at any point. For every sheet, the row pointer after the
  whole batch is at least the row pointer after the first part, both as the loop reads it
  (with 4 for a sheet without entry) and as it is stored; and a sheet whose cleared flag
  is true after the first part still has it true after the whole batch.
\<close>

theorem cursor_monotone:
  "rowPtr_of (run_files p xs initial_state) k \<le> rowPtr_of (run_files p (xs @ ys) initial_state) k
   \<and> (\<forall>r. sheetRowPtr (run_files p xs initial_state) k = Some r \<longrightarrow>
         (\<exists>r'. sheetRowPtr (run_files p (xs @ ys) initial_state) k = Some r' \<and> r \<le> r'))
   \<and> (sheetCleared (run_files p xs initial_state) k = Some True \<longrightarrow>
         sheetCleared (run_files p (xs @ ys) initial_state) k = Some True)"
proof -
  have "step_ok initial_state (run_files p xs initial_state)"
    by (rule run_files_step [OF batch_inv_initial])
  then have "batch_inv (run_files p xs initial_state)" by (simp add: step_ok_def)
  from run_files_step [OF this, of p ys]
  show ?thesis unfolding run_files_append step_ok_def by blast
qed

theorem cursor_monotone_witness:
  "rowPtr_of (run_files demo_platform [june_file] initial_state) ''6'' = 9
   \<and> 9 \<le> rowPtr_of (run_files demo_platform ([june_file] @ [header_only_file, june_file]) initial_state) ''6''
   \<and> sheetCleared (run_files demo_platform ([june_file] @ [header_only_file, june_file]) initial_state) ''6'' = Some True
   \<and> (\<exists>r'. sheetRowPtr (run_files demo_platform ([june_file] @ [header_only_file, june_file]) initial_state) ''6'' = Some r' \<and> 9 \<le> r')"
proof -
  have a: "rowPtr_of (run_files demo_platform [june_file] initial_state) ''6'' = 9"
    by code_simp
  have c: "sheetCleared (run_files demo_platform [june_file] initial_state) ''6'' = Some True"
    by code_simp
  have d: "sheetRowPtr (run_files demo_platform [june_file] initial_state) ''6'' = Some 9"
    by code_simp
  from cursor_monotone [of demo_platform "[june_file]" "''6''" "[header_only_file, june_file]"] a c d
  show ?thesis by simp
qed



text \<open>
  C10. Whenever the router returns a key for a file's name, the key is one of the twelve
  strings that \<open>toString\<close> prints for the numbers 1 to 12, so it has no leading zero and
  is never \<open>06\<close>. The loop uses this very string as the sheet name: when the workbook has
  no sheet of exactly that name the file is skipped with the missing-sheet warning that
  quotes the key, and every request the pass sends names the sheet by the key.
\<close>

theorem routing_key_verbatim:
  assumes "extractMonthFromFileName (name file) = Some k"
  shows "k \<in> set month_names
       \<and> (\<exists>m. 1 \<le> m \<and> m \<le> 12 \<and> k = toString (Num m))
       \<and> hd k \<noteq> CHR ''0'' \<and> k \<noteq> ''06''
       \<and> (\<not> sheet_exists p k \<longrightarrow>
             process_file p file st = warn (SheetMissing (name file) k) st)
       \<and> (\<exists>ops. grid (process_file p file st) = grid st @ ops
             \<and> (\<forall>req \<in> set ops. op_sheet req = k))"
proof -
  note in_names = extractMonth_in_names [OF assms]
  from month_name_no_leading_zero [OF in_names] have z: "hd k \<noteq> CHR ''0''" .
  then have "k \<noteq> ''06''" by auto
  with z in_names month_name_cases [OF in_names] process_file_grid [OF assms, of p st]
    process_file_no_sheet [OF assms, of p st]
  show ?thesis by blast
qed

theorem routing_key_verbatim_witness:
  "extractMonthFromFileName (name june_file) = Some ''6''
   \<and> \<not> sheet_exists (demo_platform\<lparr>sheet_exists := (\<lambda>k. k = ''06'')\<rparr>) ''6''
   \<and> sheet_exists (demo_platform\<lparr>sheet_exists := (\<lambda>k. k = ''06'')\<rparr>) ''06''
   \<and> process_file (demo_platform\<lparr>sheet_exists := (\<lambda>k. k = ''06'')\<rparr>) june_file initial_state =
       warn (SheetMissing (name june_file) ''6'') initial_state"
proof -
  have n: "\<not> sheet_exists (demo_platform\<lparr>sheet_exists := (\<lambda>k. k = ''06'')\<rparr>) ''6''"
    by simp
  from routing_key_verbatim [OF june_route, of "demo_platform\<lparr>sheet_exists := (\<lambda>k. k = ''06'')\<rparr>" initial_state]
    june_route n
  show ?thesis by simp
qed

end
